theory Spec2Isabelle
  imports Complex_Main "HOL-Library.AList"
begin

section \<open>The hybrid classification engine and risk aggregator of \<^verbatim>\<open>api.py\<close>\<close>

text \<open>
  Conventions of the embedding.
  \<^item> A Python \<^verbatim>\<open>str\<close> is a \<^typ>\<open>string\<close>; a \<^typ>\<open>char\<close> stands for one code point
    below 256, so \<open>length\<close> is Python's \<^verbatim>\<open>len\<close> on such texts.
  \<^item> A Python \<^verbatim>\<open>float\<close> that is finite is the \<^typ>\<open>real\<close> number it denotes; comparison
    and \<^verbatim>\<open>max\<close> of finite floats are exact, so they are the ones of \<^typ>\<open>real\<close>.
  \<^item> The topic model, the sentence encoder, the cosine similarity and the rendering of a
    rounded float are not code of \<^verbatim>\<open>api.py\<close>: they are the fields of the record
    \<open>models\<close>, and every theorem quantifies over them.
  \<^item> An exception that escapes a function is the \<open>Inl\<close> branch of its result.
  \<^item> A request is well formed: every item has a \<^verbatim>\<open>text\<close> that is a \<^verbatim>\<open>str\<close> and a
    \<^verbatim>\<open>weight\<close> that is an \<^verbatim>\<open>int\<close>; \<^verbatim>\<open>grouped_answers\<close> is the list of its entries in
    the order of the dict.
\<close>

subsection \<open>Strings\<close>

definition isspace :: "char \<Rightarrow> bool" where
  \<comment> \<open>\<^verbatim>\<open>str.isspace\<close> on the code points below 256\<close>
  "isspace c = ((of_char c :: nat) \<in> {9, 10, 11, 12, 13, 28, 29, 30, 31, 32, 133, 160})"

definition strip :: "string \<Rightarrow> string" where
  \<comment> \<open>\<^verbatim>\<open>text.strip()\<close>: leading and trailing whitespace removed\<close>
  "strip s = rev (dropWhile isspace (rev (dropWhile isspace s)))"

definition lower_char :: "char \<Rightarrow> char" where
  \<comment> \<open>\<^verbatim>\<open>str.lower\<close> on one code point below 256\<close>
  "lower_char c =
     (let n = (of_char c :: nat)
      in if (65 \<le> n \<and> n \<le> 90) \<or> (192 \<le> n \<and> n \<le> 222 \<and> n \<noteq> 215)
         then char_of (n + 32) else c)"

definition lower :: "string \<Rightarrow> string" where
  "lower s = map lower_char s"

fun starts_with :: "string \<Rightarrow> string \<Rightarrow> bool" where
  "starts_with s [] = True"
| "starts_with [] (k # ks) = False"
| "starts_with (c # cs) (k # ks) = (c = k \<and> starts_with cs ks)"

fun contains :: "string \<Rightarrow> string \<Rightarrow> bool" where
  \<comment> \<open>\<^verbatim>\<open>key in s\<close>: \<open>key\<close> occurs in \<open>s\<close> as a contiguous substring\<close>
  "contains [] key = (key = [])"
| "contains (c # cs) key = (starts_with (c # cs) key \<or> contains cs key)"

fun join :: "string \<Rightarrow> string list \<Rightarrow> string" where
  \<comment> \<open>\<^verbatim>\<open>sep.join(xs)\<close>\<close>
  "join sep [] = []"
| "join sep [x] = x"
| "join sep (x # y # ys) = x @ sep @ join sep (y # ys)"

definition digit_char :: "nat \<Rightarrow> char" where
  "digit_char d = char_of (48 + d)"

fun str_nat :: "nat \<Rightarrow> string" where
  "str_nat n = (if n < 10 then [digit_char n] else str_nat (n div 10) @ [digit_char (n mod 10)])"

definition str_int :: "int \<Rightarrow> string" where
  \<comment> \<open>\<^verbatim>\<open>str(i)\<close> of an integer, as an f-string renders it\<close>
  "str_int i = (if i < 0 then CHR ''-'' # str_nat (nat (- i)) else str_nat (nat i))"

subsection \<open>Configuration\<close>

type_synonym category = string

definition KEYWORD_TO_CATEGORY :: "(string \<times> category) list" where
  \<comment> \<open>the dict in insertion order\<close>
  "KEYWORD_TO_CATEGORY =
     [(''hit'', ''Physical Abuse''), (''slap'', ''Physical Abuse''), (''punch'', ''Physical Abuse''),
      (''kick'', ''Physical Abuse''), (''weapon'', ''Physical Abuse''), (''kill'', ''Physical Abuse''),
      (''threat'', ''Control & Manipulation'')]"

definition TOPIC_MAPPING :: "(int \<times> category) list" where
  "TOPIC_MAPPING =
     [(2, ''Control & Manipulation''), (3, ''Control & Manipulation''),
      (4, ''Neglect & Emotional Withdrawal''), (6, ''Control & Manipulation''),
      (8, ''Verbal & Emotional Abuse''), (1, ''Neglect & Emotional Withdrawal''),
      (5, ''Verbal & Emotional Abuse'')]"

definition ANCHOR_SENTENCES :: "(category \<times> string list) list" where
  "ANCHOR_SENTENCES =
     [(''Control & Manipulation'',
         [''He controls who I see.'', ''He demands passwords.'', ''He tracks my location.'']),
      (''Verbal & Emotional Abuse'',
         [''He calls me names.'', ''He yells and screams.'', ''He blames me for everything.'']),
      (''Physical Abuse'',
         [''He hurts me physically.'', ''He pushes and shoves.'', ''He throws things.'']),
      (''Neglect & Emotional Withdrawal'',
         [''He ignores me for days.'', ''He isolates me from family.''])]"

definition CATEGORIES_ADVICE :: "(category \<times> string) list" where
  "CATEGORIES_ADVICE =
     [(''Control & Manipulation'', ''Document incidents. Do not share your location if unsafe.''),
      (''Verbal & Emotional Abuse'',
         ''Prioritize your mental health. Do not engage in escalating arguments.''),
      (''Neglect & Emotional Withdrawal'', ''Seek counseling or support from trusted friends.''),
      (''Physical Abuse'', ''Go to a safe place immediately. Call 911.''),
      (''Healthy/Low Risk'', ''Maintain open communication.''),
      (''Neutral / Unclassified'', ''No specific pattern detected.'')]"

subsection \<open>The external models\<close>

datatype py_error = ValueError | RuntimeError

datatype probs = NoProbs | Scalar real | Vector "real list"

text \<open>
  \<open>topic_model\<close> and \<open>embedding_model\<close> are \<open>None\<close> when loading failed at start-up.
  A loaded topic model maps the text to \<^verbatim>\<open>(topics[0], probs)\<close>: \<open>NoProbs\<close> is
  \<^verbatim>\<open>probs is None\<close>, \<open>Scalar p\<close> a \<^verbatim>\<open>probs[0]\<close> that is one float, \<open>Vector ps\<close> a
  \<^verbatim>\<open>probs[0]\<close> that is iterable. A loaded embedding model is its \<^verbatim>\<open>encode\<close>;
  \<open>cos_sim\<close> is \<^verbatim>\<open>util.cos_sim\<close> on two vectors; \<open>render\<close> is
  \<^verbatim>\<open>str(round(conf * 100, 1))\<close>, the text an f-string puts for the rounded float.
\<close>

record 'v models =
  topic_model :: "(string \<Rightarrow> int \<times> probs) option"
  embedding_model :: "(string \<Rightarrow> 'v) option"
  cos_sim :: "'v \<Rightarrow> 'v \<Rightarrow> real"
  render :: "real \<Rightarrow> string"

subsection \<open>Detection engine\<close>

type_synonym detection = "category \<times> string \<times> real"

fun keyword_layer :: "(string \<times> category) list \<Rightarrow> string \<Rightarrow> detection option" where
  \<comment> \<open>the loop over \<^verbatim>\<open>KEYWORD_TO_CATEGORY.items()\<close>, returning at the first hit\<close>
  "keyword_layer [] text_lower = None"
| "keyword_layer ((key, val) # rest) text_lower =
     (if contains text_lower key then Some (val, ''Manual Keyword Match'', 1)
      else keyword_layer rest text_lower)"

fun py_max :: "real list \<Rightarrow> py_error + real" where
  \<comment> \<open>the builtin \<^verbatim>\<open>max\<close> of an iterable: \<^verbatim>\<open>ValueError\<close> when it is empty\<close>
  "py_max [] = Inl ValueError"
| "py_max (x # xs) = Inr (fold max xs x)"

fun topic_conf :: "probs \<Rightarrow> py_error + real" where
  "topic_conf NoProbs = Inr 0.5"
| "topic_conf (Scalar p) = Inr p"
| "topic_conf (Vector ps) = py_max ps"

definition topic_layer :: "(string \<Rightarrow> int \<times> probs) \<Rightarrow> string \<Rightarrow> py_error + detection option" where
  "topic_layer tm text =
     (let (topic, ps) = tm text
      in case map_of TOPIC_MAPPING topic of
           None \<Rightarrow> Inr None
         | Some cat \<Rightarrow>
             (case topic_conf ps of
                Inl e \<Rightarrow> Inl e
              | Inr conf \<Rightarrow> Inr (Some (cat, ''AI Cluster '' @ str_int topic, conf))))"

definition ANCHOR_EMBEDDINGS :: "(string \<Rightarrow> 'v) \<Rightarrow> (category \<times> 'v list) list" where
  "ANCHOR_EMBEDDINGS enc = map (\<lambda>(cat, sentences). (cat, map enc sentences)) ANCHOR_SENTENCES"

fun tensor_max :: "real list \<Rightarrow> py_error + real" where
  \<comment> \<open>\<^verbatim>\<open>.max()\<close> of a similarity tensor: an error when it has no element\<close>
  "tensor_max [] = Inl RuntimeError"
| "tensor_max (x # xs) = Inr (fold max xs x)"

fun semantic_loop ::
  "('v \<Rightarrow> 'v \<Rightarrow> real) \<Rightarrow> 'v \<Rightarrow> (category \<times> 'v list) list \<Rightarrow> category \<times> real
     \<Rightarrow> py_error + category \<times> real" where
  \<comment> \<open>the loop over \<^verbatim>\<open>ANCHOR_EMBEDDINGS.items()\<close> on the state \<^verbatim>\<open>(best_cat, high_score)\<close>\<close>
  "semantic_loop cs u [] st = Inr st"
| "semantic_loop cs u ((cat, anchors) # rest) (best_cat, high_score) =
     (case tensor_max (map (cs u) anchors) of
        Inl e \<Rightarrow> Inl e
      | Inr score \<Rightarrow>
          semantic_loop cs u rest
            (if score > high_score then (cat, score) else (best_cat, high_score)))"

definition semantic_layer ::
  "('v \<Rightarrow> 'v \<Rightarrow> real) \<Rightarrow> (string \<Rightarrow> 'v) \<Rightarrow> string \<Rightarrow> py_error + detection option" where
  "semantic_layer cs enc text =
     (case semantic_loop cs (enc text) (ANCHOR_EMBEDDINGS enc) (''Neutral / Unclassified'', 0) of
        Inl e \<Rightarrow> Inl e
      | Inr (best_cat, high_score) \<Rightarrow>
          if high_score > 0.35 then Inr (Some (best_cat, ''AI Semantic Similarity'', high_score))
          else Inr None)"

definition hybrid_detect :: "'v models \<Rightarrow> string \<Rightarrow> py_error + detection" where
  "hybrid_detect env text =
     (if text = [] \<or> length (strip text) < 5
      then Inr (''Healthy/Low Risk'', ''Insufficient Data'', 0)
      else case keyword_layer KEYWORD_TO_CATEGORY (lower text) of
        Some r \<Rightarrow> Inr r
      | None \<Rightarrow>
         (case (case topic_model env of None \<Rightarrow> Inr None | Some tm \<Rightarrow> topic_layer tm text) of
            Inl e \<Rightarrow> Inl e
          | Inr (Some r) \<Rightarrow> Inr r
          | Inr None \<Rightarrow>
             (case (case embedding_model env of
                      None \<Rightarrow> Inr None
                    | Some enc \<Rightarrow> semantic_layer (cos_sim env) enc text) of
                Inl e \<Rightarrow> Inl e
              | Inr (Some r) \<Rightarrow> Inr r
              | Inr None \<Rightarrow> Inr (''Healthy/Low Risk'', ''System Default'', 0))))"

subsection \<open>The \<^verbatim>\<open>/analyze\<close> route\<close>

text \<open>
  The fields \<open>item_text\<close>, \<open>item_weight\<close> and \<open>method_str\<close> are the keys \<^verbatim>\<open>text\<close>,
  \<^verbatim>\<open>weight\<close> and \<^verbatim>\<open>method\<close> of the JSON objects.
\<close>

record item =
  item_text :: string
  item_weight :: int

record section_outcome =
  category :: category
  risk :: string
  color :: string
  confidence :: string

record general_outcome = section_outcome +
  advice :: string
  method_str :: string

record response =
  general :: general_outcome
  breakdown :: "(string \<times> section_outcome) list"

definition section_text :: "item list \<Rightarrow> string" where
  "section_text items = join '' '' (map item_text items)"

definition section_score :: "item list \<Rightarrow> int" where
  "section_score items = sum_list (map item_weight items)"

definition section_risk :: "category \<Rightarrow> int \<Rightarrow> string \<times> string" where
  "section_risk cat score =
     (if cat = ''Physical Abuse'' then (''Severe'', ''red'')
      else if score \<ge> 6 then (''High'', ''orange'')
      else if score \<ge> 2 then (''Moderate'', ''yellow'')
      else (''Low'', ''green''))"

definition general_risk :: "category \<Rightarrow> int \<Rightarrow> string \<times> string" where
  "general_risk gen_cat total_risk_score =
     (if gen_cat = ''Physical Abuse'' then (''Severe'', ''red'')
      else if total_risk_score \<ge> 10 then (''High'', ''orange'')
      else if total_risk_score \<ge> 3 then (''Moderate'', ''yellow'')
      else (''Low'', ''green''))"

definition advice_for :: "category \<Rightarrow> string" where
  \<comment> \<open>\<^verbatim>\<open>CATEGORIES_ADVICE.get(gen_cat, "No advice available.")\<close>\<close>
  "advice_for gen_cat =
     (case map_of CATEGORIES_ADVICE gen_cat of None \<Rightarrow> ''No advice available.'' | Some a \<Rightarrow> a)"

type_synonym analysis_state = "(string \<times> section_outcome) list \<times> string list \<times> int"

fun sections_loop ::
  "'v models \<Rightarrow> (string \<times> item list) list \<Rightarrow> analysis_state \<Rightarrow> py_error + analysis_state" where
  \<comment> \<open>the loop over \<^verbatim>\<open>grouped_answers.items()\<close> on the state
      \<^verbatim>\<open>(breakdown, all_sentences, total_risk_score)\<close>\<close>
  "sections_loop env [] st = Inr st"
| "sections_loop env ((section_name, items) # rest) (bd, all_sentences, total_risk_score) =
     (if items = [] then sections_loop env rest (bd, all_sentences, total_risk_score)
      else
        (case hybrid_detect env (section_text items) of
           Inl e \<Rightarrow> Inl e
         | Inr (cat, meth, conf) \<Rightarrow>
             (let (rsk, col) = section_risk cat (section_score items)
              in sections_loop env rest
                   (AList.update section_name
                      \<lparr>category = cat, risk = rsk, color = col,
                       confidence = render env conf @ ''%''\<rparr> bd,
                    all_sentences @ [section_text items],
                    total_risk_score + section_score items))))"

definition analyze :: "'v models \<Rightarrow> (string \<times> item list) list \<Rightarrow> py_error + response" where
  "analyze env grouped_answers =
     (case sections_loop env grouped_answers ([], [], 0) of
        Inl e \<Rightarrow> Inl e
      | Inr (bd, all_sentences, total_risk_score) \<Rightarrow>
          (case hybrid_detect env (join '' '' all_sentences) of
             Inl e \<Rightarrow> Inl e
           | Inr (gen_cat, gen_method, gen_conf) \<Rightarrow>
               (let (gen_risk, gen_color) = general_risk gen_cat total_risk_score
                in Inr \<lparr>general =
                          \<lparr>category = gen_cat, risk = gen_risk, color = gen_color,
                           confidence = render env gen_conf,
                           advice = advice_for gen_cat, method_str = gen_method\<rparr>,
                        breakdown = bd\<rparr>)))"

subsection \<open>Stub models\<close>

definition render_known :: "real \<Rightarrow> string" where
  \<comment> \<open>\<^verbatim>\<open>str(round(conf * 100, 1))\<close> at the confidences 1.0, 0.0 and 0.5 that the engine
      itself produces; the stub does not render any other number\<close>
  "render_known conf =
     (if conf = 1 then ''100.0'' else if conf = 0 then ''0.0''
      else if conf = 1 / 2 then ''50.0'' else ''nan'')"

definition no_models :: "string models" where
  \<comment> \<open>both models failed to load\<close>
  "no_models =
     \<lparr>topic_model = None, embedding_model = None, cos_sim = (\<lambda>u a. 0), render = render_known\<rparr>"

definition topic_stub :: "probs \<Rightarrow> string models" where
  \<comment> \<open>a topic model that puts every text in cluster 2 with the given probabilities\<close>
  "topic_stub ps =
     \<lparr>topic_model = Some (\<lambda>t. (2, ps)), embedding_model = None, cos_sim = (\<lambda>u a. 0),
      render = render_known\<rparr>"

definition semantic_stub :: "real \<Rightarrow> string models" where
  \<comment> \<open>no topic model; an encoder for which only the anchor \<^verbatim>\<open>He throws things.\<close> is
      similar to a text, with the given similarity\<close>
  "semantic_stub s =
     \<lparr>topic_model = None, embedding_model = Some (\<lambda>t. t),
      cos_sim = (\<lambda>u a. if a = ''He throws things.'' then s else 0), render = render_known\<rparr>"

definition outlier_stub :: "real \<Rightarrow> string models" where
  \<comment> \<open>a topic model that puts every text in the outlier cluster -1, which
      \<open>TOPIC_MAPPING\<close> does not map, and the encoder of \<open>semantic_stub\<close>\<close>
  "outlier_stub s =
     \<lparr>topic_model = Some (\<lambda>t. (- 1, NoProbs)), embedding_model = Some (\<lambda>t. t),
      cos_sim = (\<lambda>u a. if a = ''He throws things.'' then s else 0), render = render_known\<rparr>"

section \<open>Properties\<close>

subsection \<open>Strings and the keyword table\<close>

lemma starts_with_iff: "starts_with s key \<longleftrightarrow> (\<exists>ss. s = key @ ss)"
  by (induction s key rule: starts_with.induct) auto

lemma contains_iff: "contains s key \<longleftrightarrow> (\<exists>ps ss. s = ps @ key @ ss)"
proof (induction s)
  case Nil
  then show ?case by simp
next
  case (Cons c cs)
  show ?case
  proof
    assume "contains (c # cs) key"
    then consider "starts_with (c # cs) key" | "contains cs key" by auto
    then show "\<exists>ps ss. c # cs = ps @ key @ ss"
    proof cases
      case 1
      then obtain ss where "c # cs = key @ ss" by (auto simp: starts_with_iff)
      then have "c # cs = [] @ key @ ss" by simp
      then show ?thesis by blast
    next
      case 2
      then obtain ps ss where "cs = ps @ key @ ss" using Cons.IH by blast
      then have "c # cs = (c # ps) @ key @ ss" by simp
      then show ?thesis by blast
    qed
  next
    assume "\<exists>ps ss. c # cs = ps @ key @ ss"
    then obtain ps ss where eq: "c # cs = ps @ key @ ss" by blast
    show "contains (c # cs) key"
    proof (cases ps)
      case Nil
      then have "starts_with (c # cs) key" using eq by (auto simp: starts_with_iff)
      then show ?thesis by simp
    next
      case (Cons p ps')
      then have "cs = ps' @ key @ ss" using eq by simp
      then have "contains cs key" using Cons.IH by blast
      then show ?thesis by simp
    qed
  qed
qed

lemma join_concat:
  "join sep xs = (case xs of [] \<Rightarrow> [] | x # ys \<Rightarrow> x @ concat (map ((@) sep) ys))"
  by (induction sep xs rule: join.induct) simp_all

lemma strip_all_space: "\<forall>c\<in>set s. isspace c \<Longrightarrow> strip s = []"
  by (auto simp: strip_def dest: set_dropWhileD)

lemma keyword_layer_None:
  "keyword_layer kw t = None \<longleftrightarrow> (\<forall>(key, val)\<in>set kw. \<not> contains t key)"
  by (induction kw t rule: keyword_layer.induct) auto

lemma keyword_layer_first:
  "\<exists>(key, val)\<in>set kw. contains t key \<Longrightarrow>
   \<exists>pre key val post. kw = pre @ (key, val) # post \<and> (\<forall>(k, v)\<in>set pre. \<not> contains t k)
      \<and> contains t key \<and> keyword_layer kw t = Some (val, ''Manual Keyword Match'', 1)"
proof (induction kw t rule: keyword_layer.induct)
  case (1 t)
  then show ?case by simp
next
  case (2 key val rest t)
  show ?case
  proof (cases "contains t key")
    case True
    show ?thesis
    proof (intro exI conjI)
      show "(key, val) # rest = [] @ (key, val) # rest" by simp
      show "\<forall>(k, v)\<in>set []. \<not> contains t k" by simp
      show "contains t key" by (rule True)
      show "keyword_layer ((key, val) # rest) t = Some (val, ''Manual Keyword Match'', 1)"
        using True by simp
    qed
  next
    case False
    from "2.prems" False have ex: "\<exists>(k, v)\<in>set rest. contains t k"
      by simp
    from "2.IH" [OF False ex] obtain pre k v post where
      r: "rest = pre @ (k, v) # post" "\<forall>(k', v')\<in>set pre. \<not> contains t k'" "contains t k"
         "keyword_layer rest t = Some (v, ''Manual Keyword Match'', 1)"
      by blast
    show ?thesis
    proof (intro exI conjI)
      show "(key, val) # rest = ((key, val) # pre) @ (k, v) # post" using r(1) by simp
      show "\<forall>(k', v')\<in>set ((key, val) # pre). \<not> contains t k'" using r(2) False by simp
      show "contains t k" by (rule r(3))
      show "keyword_layer ((key, val) # rest) t = Some (v, ''Manual Keyword Match'', 1)"
        using r(4) False by simp
    qed
  qed
qed

subsection \<open>Maxima and the loop of the semantic layer\<close>

lemma fold_max_Max: "fold max xs (x::real) = Max (set (x # xs))"
  by (simp only: Max.set_eq_fold)

lemma py_max_nonempty: "py_max qs = (if qs = [] then Inl ValueError else Inr (Max (set qs)))"
proof (cases qs)
  case Nil
  then show ?thesis by simp
next
  case (Cons x xs)
  show ?thesis unfolding Cons by (simp only: py_max.simps fold_max_Max list.distinct if_False)
qed

lemma tensor_max_nonempty:
  assumes "xs \<noteq> []"
  shows "\<exists>m. tensor_max xs = Inr m \<and> m \<in> set xs \<and> (\<forall>x\<in>set xs. x \<le> m)"
proof -
  from assms obtain y ys where xs: "xs = y # ys" by (cases xs) auto
  have "tensor_max xs = Inr (Max (set xs))"
    unfolding xs by (simp only: tensor_max.simps fold_max_Max)
  moreover have "Max (set xs) \<in> set xs" using assms by (intro Max_in) auto
  moreover have "\<forall>x\<in>set xs. x \<le> Max (set xs)" by simp
  ultimately show ?thesis by blast
qed

lemma semantic_loop_scan:
  assumes "\<forall>(c, as)\<in>set AE. as \<noteq> []"
  shows "\<exists>b' h'. semantic_loop cs u AE (b, h) = Inr (b', h')
     \<and> h \<le> h' \<and> (\<forall>(c, as)\<in>set AE. \<forall>a\<in>set as. cs u a \<le> h')
     \<and> (if h < h'
        then (\<exists>pre c as post. AE = pre @ (c, as) # post \<and> b' = c
                \<and> (\<exists>a\<in>set as. cs u a = h')
                \<and> (\<forall>(c', as')\<in>set pre. \<forall>a\<in>set as'. cs u a < h'))
        else h' = h \<and> b' = b)"
  using assms
proof (induction AE arbitrary: b h)
  case Nil
  then show ?case by simp
next
  case (Cons p rest)
  obtain c as where p: "p = (c, as)" by (cases p)
  from Cons.prems p have ne: "as \<noteq> []" and rest_ne: "\<forall>(c, as)\<in>set rest. as \<noteq> []"
    by auto
  from tensor_max_nonempty [of "map (cs u) as"] ne obtain score where
    sc: "tensor_max (map (cs u) as) = Inr score" "score \<in> cs u ` set as"
        "\<forall>a\<in>set as. cs u a \<le> score"
    by auto
  show ?case
  proof (cases "score > h")
    case True
    from Cons.IH [OF rest_ne, of c score] obtain b' h' where
      ih: "semantic_loop cs u rest (c, score) = Inr (b', h')" "score \<le> h'"
          "\<forall>(c, as)\<in>set rest. \<forall>a\<in>set as. cs u a \<le> h'"
          "if score < h'
           then (\<exists>pre c as post. rest = pre @ (c, as) # post \<and> b' = c
                \<and> (\<exists>a\<in>set as. cs u a = h')
                \<and> (\<forall>(c', as')\<in>set pre. \<forall>a\<in>set as'. cs u a < h'))
           else h' = score \<and> b' = c"
      by blast
    have run: "semantic_loop cs u (p # rest) (b, h) = Inr (b', h')"
      using sc(1) True ih(1) by (simp add: p)
    have le: "h \<le> h'" using True ih(2) by simp
    have all: "\<forall>(c, as)\<in>set (p # rest). \<forall>a\<in>set as. cs u a \<le> h'"
      using sc(3) ih(2,3) p by fastforce
    have lt: "h < h'" using True ih(2) by simp
    have "\<exists>pre c' as' post. p # rest = pre @ (c', as') # post \<and> b' = c'
                \<and> (\<exists>a\<in>set as'. cs u a = h')
                \<and> (\<forall>(c'', as'')\<in>set pre. \<forall>a\<in>set as''. cs u a < h')"
    proof (cases "score < h'")
      case True
      with ih(4) have "\<exists>pre c as post. rest = pre @ (c, as) # post \<and> b' = c
                \<and> (\<exists>a\<in>set as. cs u a = h')
                \<and> (\<forall>(c', as')\<in>set pre. \<forall>a\<in>set as'. cs u a < h')"
        by (simp only: if_True)
      then obtain pre c' as' post where
        d: "rest = pre @ (c', as') # post" "b' = c'" "\<exists>a\<in>set as'. cs u a = h'"
           "\<forall>(c'', as'')\<in>set pre. \<forall>a\<in>set as''. cs u a < h'"
        by blast
      show ?thesis
      proof (intro exI conjI)
        show "p # rest = (p # pre) @ (c', as') # post" using d(1) by simp
        show "b' = c'" by (rule d(2))
        show "\<exists>a\<in>set as'. cs u a = h'" by (rule d(3))
        show "\<forall>(c'', as'')\<in>set (p # pre). \<forall>a\<in>set as''. cs u a < h'"
          using d(4) sc(3) True p by fastforce
      qed
    next
      case False
      with ih(4) have e: "h' = score" "b' = c" by auto
      show ?thesis
      proof (intro exI conjI)
        show "p # rest = [] @ (c, as) # rest" using p by simp
        show "b' = c" by (rule e(2))
        show "\<exists>a\<in>set as. cs u a = h'" using sc(2) e(1) by auto
        show "\<forall>(c'', as'')\<in>set []. \<forall>a\<in>set as''. cs u a < h'" by simp
      qed
    qed
    with run le all lt show ?thesis by auto
  next
    case False
    from Cons.IH [OF rest_ne, of b h] obtain b' h' where
      ih: "semantic_loop cs u rest (b, h) = Inr (b', h')" "h \<le> h'"
          "\<forall>(c, as)\<in>set rest. \<forall>a\<in>set as. cs u a \<le> h'"
          "if h < h'
           then (\<exists>pre c as post. rest = pre @ (c, as) # post \<and> b' = c
                \<and> (\<exists>a\<in>set as. cs u a = h')
                \<and> (\<forall>(c', as')\<in>set pre. \<forall>a\<in>set as'. cs u a < h'))
           else h' = h \<and> b' = b"
      by blast
    have run: "semantic_loop cs u (p # rest) (b, h) = Inr (b', h')"
      using sc(1) False ih(1) by (simp add: p)
    have all: "\<forall>(c, as)\<in>set (p # rest). \<forall>a\<in>set as. cs u a \<le> h'"
      using sc(3) ih(2,3) p False by fastforce
    have "if h < h'
        then (\<exists>pre c' as' post. p # rest = pre @ (c', as') # post \<and> b' = c'
                \<and> (\<exists>a\<in>set as'. cs u a = h')
                \<and> (\<forall>(c'', as'')\<in>set pre. \<forall>a\<in>set as''. cs u a < h'))
        else h' = h \<and> b' = b"
    proof (cases "h < h'")
      case True
      with ih(4) have "\<exists>pre c as post. rest = pre @ (c, as) # post \<and> b' = c
                \<and> (\<exists>a\<in>set as. cs u a = h')
                \<and> (\<forall>(c', as')\<in>set pre. \<forall>a\<in>set as'. cs u a < h')"
        by (simp only: if_True)
      then obtain pre c' as' post where
        d: "rest = pre @ (c', as') # post" "b' = c'" "\<exists>a\<in>set as'. cs u a = h'"
           "\<forall>(c'', as'')\<in>set pre. \<forall>a\<in>set as''. cs u a < h'"
        by blast
      have "\<exists>pre c' as' post. p # rest = pre @ (c', as') # post \<and> b' = c'
                \<and> (\<exists>a\<in>set as'. cs u a = h')
                \<and> (\<forall>(c'', as'')\<in>set pre. \<forall>a\<in>set as''. cs u a < h')"
      proof (intro exI conjI)
        show "p # rest = (p # pre) @ (c', as') # post" using d(1) by simp
        show "b' = c'" by (rule d(2))
        show "\<exists>a\<in>set as'. cs u a = h'" by (rule d(3))
        show "\<forall>(c'', as'')\<in>set (p # pre). \<forall>a\<in>set as''. cs u a < h'"
          using d(4) sc(3) True False p by fastforce
      qed
      with True show ?thesis by simp
    next
      case False
      with ih(4) show ?thesis by simp
    qed
    with run ih(2) all show ?thesis by auto
  qed
qed

lemma anchors_nonempty: "\<forall>(c, as)\<in>set (ANCHOR_EMBEDDINGS enc). as \<noteq> []"
  by (simp add: ANCHOR_EMBEDDINGS_def ANCHOR_SENTENCES_def)

lemma semantic_layer_result:
  "\<exists>b' h'. 0 \<le> h'
     \<and> (\<forall>(c, as)\<in>set (ANCHOR_EMBEDDINGS enc). \<forall>a\<in>set as. cs (enc text) a \<le> h')
     \<and> (if 0 < h'
        then (\<exists>pre c as post. ANCHOR_EMBEDDINGS enc = pre @ (c, as) # post \<and> b' = c
                \<and> (\<exists>a\<in>set as. cs (enc text) a = h')
                \<and> (\<forall>(c', as')\<in>set pre. \<forall>a\<in>set as'. cs (enc text) a < h'))
        else h' = 0)
     \<and> semantic_layer cs enc text
         = (if h' > 0.35 then Inr (Some (b', ''AI Semantic Similarity'', h')) else Inr None)"
proof -
  from semantic_loop_scan [OF anchors_nonempty, of cs "enc text" enc "''Neutral / Unclassified''" 0]
  obtain b' h' where
    r: "semantic_loop cs (enc text) (ANCHOR_EMBEDDINGS enc) (''Neutral / Unclassified'', 0) = Inr (b', h')"
       "0 \<le> h'"
       "\<forall>(c, as)\<in>set (ANCHOR_EMBEDDINGS enc). \<forall>a\<in>set as. cs (enc text) a \<le> h'"
       "if 0 < h'
        then (\<exists>pre c as post. ANCHOR_EMBEDDINGS enc = pre @ (c, as) # post \<and> b' = c
                \<and> (\<exists>a\<in>set as. cs (enc text) a = h')
                \<and> (\<forall>(c', as')\<in>set pre. \<forall>a\<in>set as'. cs (enc text) a < h'))
        else h' = 0 \<and> b' = ''Neutral / Unclassified''"
    by (elim exE conjE)
  have l: "semantic_layer cs enc text
         = (if h' > 0.35 then Inr (Some (b', ''AI Semantic Similarity'', h')) else Inr None)"
    by (simp add: semantic_layer_def r(1))
  have c: "if 0 < h'
        then (\<exists>pre c as post. ANCHOR_EMBEDDINGS enc = pre @ (c, as) # post \<and> b' = c
                \<and> (\<exists>a\<in>set as. cs (enc text) a = h')
                \<and> (\<forall>(c', as')\<in>set pre. \<forall>a\<in>set as'. cs (enc text) a < h'))
        else h' = 0"
    using r(4) by (cases "0 < h'") simp_all
  show ?thesis
    apply (rule exI [of _ b'], rule exI [of _ h'])
    using r(2) r(3) c l by (intro conjI)
qed

subsection \<open>The length guard\<close>

text \<open>
  C4, as amended. The guard is \<^verbatim>\<open>not text or len(text.strip()) < 5\<close>: a text that is empty,
  that consists of whitespace only, or whose form without leading and trailing whitespace
  has fewer than 5 characters, is classified as \<open>Healthy/Low Risk\<close> with method
  \<open>Insufficient Data\<close> and confidence 0, whatever the models are: no layer is consulted.
\<close>

theorem guard_returns_insufficient_data:
  assumes "text = [] \<or> (\<forall>c\<in>set text. isspace c) \<or> length (strip text) < 5"
  shows "hybrid_detect env text = Inr (''Healthy/Low Risk'', ''Insufficient Data'', 0)"
proof -
  have "text = [] \<or> length (strip text) < 5"
    using assms strip_all_space [of "text"] by fastforce
  then show ?thesis
    unfolding hybrid_detect_def by (simp only: if_True)
qed

theorem guard_returns_insufficient_data_witness:
  "length (strip ''  hit   '') < 5
   \<and> hybrid_detect (topic_stub (Scalar 0.9)) ''  hit   ''
       = Inr (''Healthy/Low Risk'', ''Insufficient Data'', 0)"
proof -
  have h: "length (strip ''  hit   '') < 5" by code_simp
  then have "''  hit   '' = [] \<or> (\<forall>c\<in>set ''  hit   ''. isspace c) \<or> length (strip ''  hit   '') < 5"
    by (rule disjI2 [OF disjI2])
  from guard_returns_insufficient_data [OF this] h show ?thesis by (rule conjI [rotated])
qed

text \<open>
  C4 as stated counts non-whitespace characters. The text \<^verbatim>\<open>a hit\<close> has 4 of them, but
  stripping leaves its 5 characters, so it passes the guard and the keyword layer answers.
\<close>

theorem guard_non_whitespace_count_counterexample:
  "length (filter (Not \<circ> isspace) ''a hit'') < 5
   \<and> hybrid_detect no_models ''a hit'' = Inr (''Physical Abuse'', ''Manual Keyword Match'', 1)
   \<and> hybrid_detect no_models ''a hit'' \<noteq> Inr (''Healthy/Low Risk'', ''Insufficient Data'', 0)"
proof -
  have n: "length (filter (Not \<circ> isspace) ''a hit'') < 5"
    by (simp add: isspace_def)
  have r: "hybrid_detect no_models ''a hit'' = Inr (''Physical Abuse'', ''Manual Keyword Match'', 1)"
    by code_simp
  from n r show ?thesis by simp
qed

subsection \<open>The keyword layer\<close>

text \<open>
  C3. A text that passes the guard and whose lowercased form contains a trigger of
  \<open>KEYWORD_TO_CATEGORY\<close> is classified by the first trigger of the table, in insertion order,
  that it contains: the result is that trigger's category with confidence 1 and method
  \<open>Manual Keyword Match\<close>, for every state of the models.
\<close>

theorem keyword_match_first_trigger:
  assumes "\<not> (text = [] \<or> length (strip text) < 5)"
    and "\<exists>(key, val)\<in>set KEYWORD_TO_CATEGORY. contains (lower text) key"
  shows "\<exists>pre key val post.
           KEYWORD_TO_CATEGORY = pre @ (key, val) # post
         \<and> (\<forall>(k, v)\<in>set pre. \<not> contains (lower text) k)
         \<and> contains (lower text) key
         \<and> hybrid_detect env text = Inr (val, ''Manual Keyword Match'', 1)"
proof -
  from keyword_layer_first [OF assms(2)] obtain pre key val post where
    r: "KEYWORD_TO_CATEGORY = pre @ (key, val) # post"
       "\<forall>(k, v)\<in>set pre. \<not> contains (lower text) k" "contains (lower text) key"
       "keyword_layer KEYWORD_TO_CATEGORY (lower text) = Some (val, ''Manual Keyword Match'', 1)"
    by blast
  from assms(1) r(4) have "hybrid_detect env text = Inr (val, ''Manual Keyword Match'', 1)"
    by (simp add: hybrid_detect_def)
  with r(1-3) show ?thesis by blast
qed

theorem keyword_match_first_trigger_witness:
  "\<not> (''A threat to KILL'' = [] \<or> length (strip ''A threat to KILL'') < 5)
   \<and> contains (lower ''A threat to KILL'') ''kill''
   \<and> contains (lower ''A threat to KILL'') ''threat''
   \<and> (\<exists>val. hybrid_detect (topic_stub (Scalar 0.9)) ''A threat to KILL''
       = Inr (val, ''Manual Keyword Match'', 1))"
proof -
  let ?t = "''A threat to KILL''"
  have g: "\<not> (?t = [] \<or> length (strip ?t) < 5)"
    by code_simp
  have c1: "contains (lower ?t) ''kill''" by code_simp
  have c2: "contains (lower ?t) ''threat''" by code_simp
  have "(''kill'', ''Physical Abuse'') \<in> set KEYWORD_TO_CATEGORY"
    by (simp add: KEYWORD_TO_CATEGORY_def)
  with c1 have k: "\<exists>(key, val)\<in>set KEYWORD_TO_CATEGORY. contains (lower ?t) key"
    by blast
  from keyword_match_first_trigger [OF g k, of "topic_stub (Scalar 0.9)"]
  have "\<exists>val. hybrid_detect (topic_stub (Scalar 0.9)) ?t = Inr (val, ''Manual Keyword Match'', 1)"
    by blast
  with g c1 c2 show ?thesis by blast
qed

subsection \<open>The topic layer\<close>

lemma hybrid_detect_past_keywords:
  assumes "\<not> (text = [] \<or> length (strip text) < 5)"
    and "\<forall>(key, val)\<in>set KEYWORD_TO_CATEGORY. \<not> contains (lower text) key"
  shows "hybrid_detect env text =
     (case (case topic_model env of None \<Rightarrow> Inr None | Some tm \<Rightarrow> topic_layer tm text) of
        Inl e \<Rightarrow> Inl e
      | Inr (Some r) \<Rightarrow> Inr r
      | Inr None \<Rightarrow>
         (case (case embedding_model env of
                  None \<Rightarrow> Inr None
                | Some enc \<Rightarrow> semantic_layer (cos_sim env) enc text) of
            Inl e \<Rightarrow> Inl e
          | Inr (Some r) \<Rightarrow> Inr r
          | Inr None \<Rightarrow> Inr (''Healthy/Low Risk'', ''System Default'', 0)))"
proof -
  have "keyword_layer KEYWORD_TO_CATEGORY (lower text) = None"
    using assms(2) by (simp only: keyword_layer_None)
  with assms(1) show ?thesis by (simp add: hybrid_detect_def)
qed

lemma topic_layer_mapped:
  assumes "tm text = (topic, ps)" and "map_of TOPIC_MAPPING topic = Some cat"
  shows "topic_layer tm text =
     (case topic_conf ps of
        Inl e \<Rightarrow> Inl e
      | Inr conf \<Rightarrow> Inr (Some (cat, ''AI Cluster '' @ str_int topic, conf)))"
  using assms by (simp add: topic_layer_def)

lemma topic_layer_unmapped:
  "map_of TOPIC_MAPPING (fst (tm text)) = None \<Longrightarrow> topic_layer tm text = Inr None"
  by (cases "tm text") (simp add: topic_layer_def)



subsection \<open>The semantic layer and the default\<close>

lemma sims_mem:
  "x \<in> set (concat (map (\<lambda>(c, as). map f as) AE)) \<longleftrightarrow> (\<exists>(c, as)\<in>set AE. \<exists>a\<in>set as. x = f a)"
  by auto

lemma sims_nonempty:
  "concat (map (\<lambda>(c, as). map f as) (ANCHOR_EMBEDDINGS enc)) \<noteq> []"
  by (simp add: ANCHOR_EMBEDDINGS_def ANCHOR_SENTENCES_def)

lemma semantic_layer_abstains:
  assumes "\<forall>(c, as)\<in>set (ANCHOR_EMBEDDINGS enc). \<forall>a\<in>set as. cs (enc text) a \<le> 0.35"
  shows "semantic_layer cs enc text = Inr None"
proof -
  from semantic_layer_result [of enc cs "text"] obtain b' h' where
    r: "0 \<le> h'"
       "if 0 < h'
        then (\<exists>pre c as post. ANCHOR_EMBEDDINGS enc = pre @ (c, as) # post \<and> b' = c
                \<and> (\<exists>a\<in>set as. cs (enc text) a = h')
                \<and> (\<forall>(c', as')\<in>set pre. \<forall>a\<in>set as'. cs (enc text) a < h'))
        else h' = 0"
       "semantic_layer cs enc text
         = (if h' > 0.35 then Inr (Some (b', ''AI Semantic Similarity'', h')) else Inr None)"
    by (elim exE conjE)
  have "h' \<le> 0.35"
  proof (cases "0 < h'")
    case True
    with r(2) obtain pre c as post a where
      "ANCHOR_EMBEDDINGS enc = pre @ (c, as) # post" "a \<in> set as" "cs (enc text) a = h'"
      by auto
    then have "(c, as) \<in> set (ANCHOR_EMBEDDINGS enc)" "a \<in> set as" "cs (enc text) a = h'"
      by simp_all
    with assms show ?thesis by fastforce
  next
    case False
    with r(2) show ?thesis by simp
  qed
  with r(3) show ?thesis by simp
qed

lemma semantic_layer_gmax:
  assumes "gmax = Max (set (concat (map (\<lambda>(c, as). map (cs (enc text)) as) (ANCHOR_EMBEDDINGS enc))))"
  shows "if gmax > 0.35
         then \<exists>pre c as post. ANCHOR_EMBEDDINGS enc = pre @ (c, as) # post
                \<and> (\<exists>a\<in>set as. cs (enc text) a = gmax)
                \<and> (\<forall>(c', as')\<in>set pre. \<forall>a\<in>set as'. cs (enc text) a < gmax)
                \<and> semantic_layer cs enc text = Inr (Some (c, ''AI Semantic Similarity'', gmax))
         else semantic_layer cs enc text = Inr None"
proof -
  let ?S = "set (concat (map (\<lambda>(c, as). map (cs (enc text)) as) (ANCHOR_EMBEDDINGS enc)))"
  have ne: "?S \<noteq> {}" unfolding set_empty by (rule sims_nonempty)
  have fin: "finite ?S" by (rule finite_set)
  from semantic_layer_result [of enc cs "text"] obtain b' h' where
    r: "0 \<le> h'"
       "\<forall>(c, as)\<in>set (ANCHOR_EMBEDDINGS enc). \<forall>a\<in>set as. cs (enc text) a \<le> h'"
       "if 0 < h'
        then (\<exists>pre c as post. ANCHOR_EMBEDDINGS enc = pre @ (c, as) # post \<and> b' = c
                \<and> (\<exists>a\<in>set as. cs (enc text) a = h')
                \<and> (\<forall>(c', as')\<in>set pre. \<forall>a\<in>set as'. cs (enc text) a < h'))
        else h' = 0"
       "semantic_layer cs enc text
         = (if h' > 0.35 then Inr (Some (b', ''AI Semantic Similarity'', h')) else Inr None)"
    by (elim exE conjE)
  have all: "x \<le> h'" if "x \<in> ?S" for x
    using r(2) that unfolding sims_mem by fastforce
  have le: "gmax \<le> h'" unfolding assms using fin ne all by (rule Max.boundedI)
  show ?thesis
  proof (cases "0 < h'")
    case True
    with r(3) have "\<exists>pre c as post. ANCHOR_EMBEDDINGS enc = pre @ (c, as) # post \<and> b' = c
                \<and> (\<exists>a\<in>set as. cs (enc text) a = h')
                \<and> (\<forall>(c', as')\<in>set pre. \<forall>a\<in>set as'. cs (enc text) a < h')"
      by (simp only: if_True)
    then obtain pre c as post where
      d: "ANCHOR_EMBEDDINGS enc = pre @ (c, as) # post" "b' = c"
         "\<exists>a\<in>set as. cs (enc text) a = h'"
         "\<forall>(c', as')\<in>set pre. \<forall>a\<in>set as'. cs (enc text) a < h'"
      by (elim exE conjE)
    from d(1,3) have "h' \<in> ?S" unfolding sims_mem by fastforce
    with fin have "h' \<le> gmax" unfolding assms by (rule Max_ge)
    with le have eq: "h' = gmax" by simp
    show ?thesis
    proof (cases "gmax > 0.35")
      case True
      have "\<exists>pre c as post. ANCHOR_EMBEDDINGS enc = pre @ (c, as) # post
                \<and> (\<exists>a\<in>set as. cs (enc text) a = gmax)
                \<and> (\<forall>(c', as')\<in>set pre. \<forall>a\<in>set as'. cs (enc text) a < gmax)
                \<and> semantic_layer cs enc text = Inr (Some (c, ''AI Semantic Similarity'', gmax))"
      proof (intro exI conjI)
        show "ANCHOR_EMBEDDINGS enc = pre @ (c, as) # post" by (rule d(1))
        show "\<exists>a\<in>set as. cs (enc text) a = gmax" using d(3) eq by simp
        show "\<forall>(c', as')\<in>set pre. \<forall>a\<in>set as'. cs (enc text) a < gmax" using d(4) eq by simp
        show "semantic_layer cs enc text = Inr (Some (c, ''AI Semantic Similarity'', gmax))"
          using r(4) True eq d(2) by simp
      qed
      with True show ?thesis by (simp only: if_True)
    next
      case False
      with r(4) eq show ?thesis by simp
    qed
  next
    case False
    with r(3) have "h' = 0" by simp
    with le r(4) show ?thesis by simp
  qed
qed

lemma topic_abstains:
  assumes "topic_model env = None
         \<or> (\<exists>tm. topic_model env = Some tm \<and> map_of TOPIC_MAPPING (fst (tm text)) = None)"
  shows "(case topic_model env of None \<Rightarrow> Inr None | Some tm \<Rightarrow> topic_layer tm text) = Inr None"
  using assms by (auto simp: topic_layer_unmapped)

text \<open>
  C7. When the text passes the guard, no trigger matches, the topic model is not loaded or
  produces a topic that is no key of \<open>TOPIC_MAPPING\<close>, and the embedding model is not loaded
  or no anchor embedding has a similarity above 0.35, the engine returns
  \<open>Healthy/Low Risk\<close>, \<open>System Default\<close>, 0: a value, not an error.
\<close>

theorem all_layers_abstain_system_default:
  assumes "\<not> (text = [] \<or> length (strip text) < 5)"
    and "\<forall>(key, val)\<in>set KEYWORD_TO_CATEGORY. \<not> contains (lower text) key"
    and "topic_model env = None
         \<or> (\<exists>tm. topic_model env = Some tm \<and> map_of TOPIC_MAPPING (fst (tm text)) = None)"
    and "embedding_model env = None
         \<or> (\<exists>enc. embedding_model env = Some enc
              \<and> (\<forall>(c, as)\<in>set (ANCHOR_EMBEDDINGS enc). \<forall>a\<in>set as.
                    cos_sim env (enc text) a \<le> 0.35))"
  shows "hybrid_detect env text = Inr (''Healthy/Low Risk'', ''System Default'', 0)"
proof -
  have s: "(case embedding_model env of
              None \<Rightarrow> Inr None
            | Some enc \<Rightarrow> semantic_layer (cos_sim env) enc text) = Inr None"
    using assms(4) by (auto simp: semantic_layer_abstains)
  show ?thesis
    unfolding hybrid_detect_past_keywords [OF assms(1,2)]
    by (simp add: topic_abstains [OF assms(3)] s)
qed

theorem all_layers_abstain_system_default_witness:
  "hybrid_detect no_models ''normal day'' = Inr (''Healthy/Low Risk'', ''System Default'', 0)
   \<and> hybrid_detect (outlier_stub 0.2) ''normal day''
       = Inr (''Healthy/Low Risk'', ''System Default'', 0)"
proof -
  have g: "\<not> (''normal day'' = [] \<or> length (strip ''normal day'') < 5)"
    by code_simp
  have k: "\<forall>(key, val)\<in>set KEYWORD_TO_CATEGORY. \<not> contains (lower ''normal day'') key"
    by code_simp
  have t0: "topic_model no_models = None
         \<or> (\<exists>tm. topic_model no_models = Some tm
              \<and> map_of TOPIC_MAPPING (fst (tm ''normal day'')) = None)"
    by (simp add: no_models_def)
  have e0: "embedding_model no_models = None
         \<or> (\<exists>enc. embedding_model no_models = Some enc
              \<and> (\<forall>(c, as)\<in>set (ANCHOR_EMBEDDINGS enc). \<forall>a\<in>set as.
                    cos_sim no_models (enc ''normal day'') a \<le> 0.35))"
    by (simp add: no_models_def)
  have t1: "topic_model (outlier_stub 0.2) = None
         \<or> (\<exists>tm. topic_model (outlier_stub 0.2) = Some tm
              \<and> map_of TOPIC_MAPPING (fst (tm ''normal day'')) = None)"
    by (simp add: outlier_stub_def TOPIC_MAPPING_def)
  have e1: "embedding_model (outlier_stub 0.2) = None
         \<or> (\<exists>enc. embedding_model (outlier_stub 0.2) = Some enc
              \<and> (\<forall>(c, as)\<in>set (ANCHOR_EMBEDDINGS enc). \<forall>a\<in>set as.
                    cos_sim (outlier_stub 0.2) (enc ''normal day'') a \<le> 0.35))"
    by (simp add: outlier_stub_def ANCHOR_EMBEDDINGS_def ANCHOR_SENTENCES_def)
  from all_layers_abstain_system_default [OF g k t0 e0]
       all_layers_abstain_system_default [OF g k t1 e1]
  show ?thesis by (rule conjI)
qed

text \<open>
  C6, as amended. When the semantic layer is reached with a loaded embedding model, let
  \<open>gmax\<close> be the maximum similarity over all anchor embeddings. If \<open>gmax\<close> exceeds 0.35, the
  engine returns the first category of \<open>ANCHOR_EMBEDDINGS\<close> that has an anchor of similarity
  \<open>gmax\<close>, with method \<open>AI Semantic Similarity\<close> and confidence \<open>gmax\<close>. Otherwise the layer
  hands nothing on, and the engine returns \<open>Healthy/Low Risk\<close>, \<open>System Default\<close>, 0.
\<close>

theorem semantic_layer_threshold:
  assumes "\<not> (text = [] \<or> length (strip text) < 5)"
    and "\<forall>(key, val)\<in>set KEYWORD_TO_CATEGORY. \<not> contains (lower text) key"
    and "topic_model env = None
         \<or> (\<exists>tm. topic_model env = Some tm \<and> map_of TOPIC_MAPPING (fst (tm text)) = None)"
    and "embedding_model env = Some enc"
    and "gmax = Max (set (concat (map (\<lambda>(c, as). map (cos_sim env (enc text)) as)
                                    (ANCHOR_EMBEDDINGS enc))))"
  shows "if gmax > 0.35
         then \<exists>pre c as post. ANCHOR_EMBEDDINGS enc = pre @ (c, as) # post
                \<and> (\<exists>a\<in>set as. cos_sim env (enc text) a = gmax)
                \<and> (\<forall>(c', as')\<in>set pre. \<forall>a\<in>set as'. cos_sim env (enc text) a < gmax)
                \<and> hybrid_detect env text = Inr (c, ''AI Semantic Similarity'', gmax)
         else hybrid_detect env text = Inr (''Healthy/Low Risk'', ''System Default'', 0)"
proof (cases "gmax > 0.35")
  case True
  with semantic_layer_gmax [of gmax "cos_sim env" enc "text", OF assms(5)] obtain pre c as post where
    d: "ANCHOR_EMBEDDINGS enc = pre @ (c, as) # post"
       "\<exists>a\<in>set as. cos_sim env (enc text) a = gmax"
       "\<forall>(c', as')\<in>set pre. \<forall>a\<in>set as'. cos_sim env (enc text) a < gmax"
       "semantic_layer (cos_sim env) enc text = Inr (Some (c, ''AI Semantic Similarity'', gmax))"
    by (simp only: if_True) (elim exE conjE)
  have "\<exists>pre c as post. ANCHOR_EMBEDDINGS enc = pre @ (c, as) # post
                \<and> (\<exists>a\<in>set as. cos_sim env (enc text) a = gmax)
                \<and> (\<forall>(c', as')\<in>set pre. \<forall>a\<in>set as'. cos_sim env (enc text) a < gmax)
                \<and> hybrid_detect env text = Inr (c, ''AI Semantic Similarity'', gmax)"
  proof (intro exI conjI)
    show "ANCHOR_EMBEDDINGS enc = pre @ (c, as) # post" by (rule d(1))
    show "\<exists>a\<in>set as. cos_sim env (enc text) a = gmax" by (rule d(2))
    show "\<forall>(c', as')\<in>set pre. \<forall>a\<in>set as'. cos_sim env (enc text) a < gmax" by (rule d(3))
    show "hybrid_detect env text = Inr (c, ''AI Semantic Similarity'', gmax)"
      unfolding hybrid_detect_past_keywords [OF assms(1,2)]
      by (simp add: topic_abstains [OF assms(3)] assms(4) d(4))
  qed
  with True show ?thesis by (simp only: if_True)
next
  case False
  with semantic_layer_gmax [of gmax "cos_sim env" enc "text", OF assms(5)]
  have "semantic_layer (cos_sim env) enc text = Inr None" by (simp only: if_False)
  then have "hybrid_detect env text = Inr (''Healthy/Low Risk'', ''System Default'', 0)"
    unfolding hybrid_detect_past_keywords [OF assms(1,2)]
    by (simp add: topic_abstains [OF assms(3)] assms(4))
  with False show ?thesis by (simp only: if_False)
qed

theorem semantic_layer_threshold_witness:
  "(\<exists>c. hybrid_detect (outlier_stub 0.8) ''normal day''
          = Inr (c, ''AI Semantic Similarity'', 0.8))
   \<and> hybrid_detect (outlier_stub 0.2) ''normal day''
       = Inr (''Healthy/Low Risk'', ''System Default'', 0)"
proof -
  have g: "\<not> (''normal day'' = [] \<or> length (strip ''normal day'') < 5)"
    by code_simp
  have k: "\<forall>(key, val)\<in>set KEYWORD_TO_CATEGORY. \<not> contains (lower ''normal day'') key"
    by code_simp
  have t: "topic_model (outlier_stub s) = None
         \<or> (\<exists>tm. topic_model (outlier_stub s) = Some tm
              \<and> map_of TOPIC_MAPPING (fst (tm ''normal day'')) = None)" for s
    by (simp add: outlier_stub_def TOPIC_MAPPING_def)
  have e: "embedding_model (outlier_stub s) = Some (\<lambda>t. t)" for s
    by (simp add: outlier_stub_def)
  have m8: "0.8 = Max (set (concat (map (\<lambda>(c, as). map (cos_sim (outlier_stub 0.8) ((\<lambda>t. t) ''normal day'')) as)
                          (ANCHOR_EMBEDDINGS (\<lambda>t. t)))))"
    by code_simp
  have m2: "0.2 = Max (set (concat (map (\<lambda>(c, as). map (cos_sim (outlier_stub 0.2) ((\<lambda>t. t) ''normal day'')) as)
                          (ANCHOR_EMBEDDINGS (\<lambda>t. t)))))"
    by code_simp
  have hi: "(0.8::real) > 0.35" and lo: "\<not> (0.2::real) > 0.35" by simp_all
  from semantic_layer_threshold [OF g k t e m8] hi
  have "\<exists>pre c as post. ANCHOR_EMBEDDINGS (\<lambda>t. t) = pre @ (c, as) # post
                \<and> (\<exists>a\<in>set as. cos_sim (outlier_stub 0.8) ((\<lambda>t. t) ''normal day'') a = 0.8)
                \<and> (\<forall>(c', as')\<in>set pre. \<forall>a\<in>set as'. cos_sim (outlier_stub 0.8) ((\<lambda>t. t) ''normal day'') a < 0.8)
                \<and> hybrid_detect (outlier_stub 0.8) ''normal day'' = Inr (c, ''AI Semantic Similarity'', 0.8)"
    by (simp only: if_True)
  then obtain c where
    "hybrid_detect (outlier_stub 0.8) ''normal day'' = Inr (c, ''AI Semantic Similarity'', 0.8)"
    by (elim exE conjE)
  note h8 = this
  have a: "\<exists>c. hybrid_detect (outlier_stub 0.8) ''normal day''
          = Inr (c, ''AI Semantic Similarity'', 0.8)"
  proof (rule exI)
    show "hybrid_detect (outlier_stub 0.8) ''normal day''
          = Inr (c, ''AI Semantic Similarity'', 0.8)" by (rule h8)
  qed
  from semantic_layer_threshold [OF g k t e m2] lo
  have b: "hybrid_detect (outlier_stub 0.2) ''normal day''
       = Inr (''Healthy/Low Risk'', ''System Default'', 0)"
    by (simp only: if_False)
  from a b show ?thesis by (rule conjI)
qed

text \<open>
  C6 as stated has the layer return \<open>Neutral / Unclassified\<close> with the score when the
  maximum is not above 0.35. With a maximum of 0.2 the loop ends on the best category,
  not on \<open>Neutral / Unclassified\<close>, the layer hands nothing on, and the engine returns the
  default result with confidence 0.
\<close>

theorem semantic_layer_neutral_counterexample:
  "\<not> (0.2::real) > 0.35
   \<and> semantic_loop (cos_sim (semantic_stub 0.2)) ''normal day'' (ANCHOR_EMBEDDINGS id)
        (''Neutral / Unclassified'', 0) = Inr (''Physical Abuse'', 0.2)
   \<and> semantic_layer (cos_sim (semantic_stub 0.2)) id ''normal day'' = Inr None
   \<and> hybrid_detect (semantic_stub 0.2) ''normal day''
       = Inr (''Healthy/Low Risk'', ''System Default'', 0)"
proof -
  have a: "\<not> (0.2::real) > 0.35" by simp
  have b: "semantic_loop (cos_sim (semantic_stub 0.2)) ''normal day'' (ANCHOR_EMBEDDINGS id)
        (''Neutral / Unclassified'', 0) = Inr (''Physical Abuse'', 0.2)"
    by code_simp
  have c: "semantic_layer (cos_sim (semantic_stub 0.2)) id ''normal day'' = Inr None"
    by code_simp
  have d: "hybrid_detect (semantic_stub 0.2) ''normal day''
       = Inr (''Healthy/Low Risk'', ''System Default'', 0)"
    by code_simp
  from a b c d show ?thesis by (intro conjI)
qed

subsection \<open>The range of the confidence\<close>

lemma keyword_layer_conf: "keyword_layer kw t = Some (cat, meth, conf) \<Longrightarrow> conf = 1"
  by (induction kw t rule: keyword_layer.induct) (simp_all split: if_splits)

lemma topic_conf_bounds:
  assumes "topic_conf ps = Inr conf"
    and "case ps of NoProbs \<Rightarrow> True | Scalar p \<Rightarrow> 0 \<le> p \<and> p \<le> 1
         | Vector qs \<Rightarrow> \<forall>q\<in>set qs. 0 \<le> q \<and> q \<le> 1"
  shows "0 \<le> conf \<and> conf \<le> 1"
proof (cases ps)
  case NoProbs
  with assms(1) show ?thesis by simp
next
  case (Scalar p)
  with assms show ?thesis by simp
next
  case (Vector qs)
  with assms(1) have ne: "qs \<noteq> []" and c: "conf = Max (set qs)"
    by (simp_all add: py_max_nonempty split: if_splits)
  from ne have "Max (set qs) \<in> set qs" by (intro Max_in) simp_all
  with assms(2) Vector c show ?thesis by simp
qed

lemma hybrid_detect_topic_mapped:
  assumes "\<not> (text = [] \<or> length (strip text) < 5)"
    and "\<forall>(key, val)\<in>set KEYWORD_TO_CATEGORY. \<not> contains (lower text) key"
    and "topic_model env = Some tm"
    and "tm text = (topic, ps)"
    and "map_of TOPIC_MAPPING topic = Some cat"
  shows "hybrid_detect env text =
     (case topic_conf ps of
        Inl e \<Rightarrow> Inl e
      | Inr conf \<Rightarrow> Inr (cat, ''AI Cluster '' @ str_int topic, conf))"
proof -
  have tl: "topic_layer tm text =
     (case topic_conf ps of
        Inl e \<Rightarrow> Inl e
      | Inr conf \<Rightarrow> Inr (Some (cat, ''AI Cluster '' @ str_int topic, conf)))"
    using assms(4,5) by (rule topic_layer_mapped)
  show ?thesis
    unfolding hybrid_detect_past_keywords [OF assms(1,2)]
    by (simp add: assms(3) tl split: sum.splits)
qed

lemma semantic_layer_conf:
  assumes "semantic_layer cs enc text = Inr (Some (cat, meth, conf))"
    and "\<forall>(c, as)\<in>set (ANCHOR_EMBEDDINGS enc). \<forall>a\<in>set as. cs (enc text) a \<le> 1"
  shows "0 \<le> conf \<and> conf \<le> 1"
proof -
  from semantic_layer_result [of enc cs "text"] obtain b' h' where
    r: "0 \<le> h'"
       "if 0 < h'
        then (\<exists>pre c as post. ANCHOR_EMBEDDINGS enc = pre @ (c, as) # post \<and> b' = c
                \<and> (\<exists>a\<in>set as. cs (enc text) a = h')
                \<and> (\<forall>(c', as')\<in>set pre. \<forall>a\<in>set as'. cs (enc text) a < h'))
        else h' = 0"
       "semantic_layer cs enc text
         = (if h' > 0.35 then Inr (Some (b', ''AI Semantic Similarity'', h')) else Inr None)"
    by (elim exE conjE)
  from assms(1) r(3) have h: "h' > 0.35" and c: "conf = h'"
    by (simp_all split: if_splits)
  from h have "0 < h'" by simp
  with r(2) have "\<exists>pre c as post. ANCHOR_EMBEDDINGS enc = pre @ (c, as) # post \<and> b' = c
                \<and> (\<exists>a\<in>set as. cs (enc text) a = h')
                \<and> (\<forall>(c', as')\<in>set pre. \<forall>a\<in>set as'. cs (enc text) a < h')"
    by (simp only: if_True)
  then obtain pre c' as post a where
    "ANCHOR_EMBEDDINGS enc = pre @ (c', as) # post" "a \<in> set as" "cs (enc text) a = h'"
    by (elim exE conjE bexE)
  then have "(c', as) \<in> set (ANCHOR_EMBEDDINGS enc)" "a \<in> set as" "cs (enc text) a = h'"
    by simp_all
  with assms(2) have "h' \<le> 1" by fastforce
  with r(1) c show ?thesis by simp
qed

lemma semantic_fallthrough_conf:
  assumes "(case (case embedding_model env of
                    None \<Rightarrow> Inr None
                  | Some enc \<Rightarrow> semantic_layer (cos_sim env) enc text) of
              Inl e \<Rightarrow> Inl e
            | Inr (Some r) \<Rightarrow> Inr r
            | Inr None \<Rightarrow> Inr (''Healthy/Low Risk'', ''System Default'', 0))
           = Inr (cat, meth, conf)"
    and "\<forall>enc. embedding_model env = Some enc \<longrightarrow>
           (\<forall>(c, as)\<in>set (ANCHOR_EMBEDDINGS enc). \<forall>a\<in>set as. cos_sim env (enc text) a \<le> 1)"
  shows "0 \<le> conf \<and> conf \<le> 1"
proof (cases "embedding_model env")
  case None
  with assms(1) show ?thesis by simp
next
  case (Some enc)
  show ?thesis
  proof (cases "semantic_layer (cos_sim env) enc text")
    case (Inl e)
    with assms(1) Some show ?thesis by simp
  next
    case (Inr opt)
    show ?thesis
    proof (cases opt)
      case None
      with assms(1) Some Inr show ?thesis by simp
    next
      case (Some r)
      with assms(1) \<open>embedding_model env = Some enc\<close> Inr
      have "semantic_layer (cos_sim env) enc text = Inr (Some (cat, meth, conf))" by simp
      moreover from assms(2) \<open>embedding_model env = Some enc\<close>
      have "\<forall>(c, as)\<in>set (ANCHOR_EMBEDDINGS enc). \<forall>a\<in>set as. cos_sim env (enc text) a \<le> 1"
        by simp
      ultimately show ?thesis by (rule semantic_layer_conf)
    qed
  qed
qed

lemma confidence_bounds:
  assumes res: "hybrid_detect env text = Inr (cat, meth, conf)"
    and probs: "\<forall>tm. topic_model env = Some tm \<longrightarrow>
           (case snd (tm text) of NoProbs \<Rightarrow> True | Scalar p \<Rightarrow> 0 \<le> p \<and> p \<le> 1
            | Vector qs \<Rightarrow> \<forall>q\<in>set qs. 0 \<le> q \<and> q \<le> 1)"
    and sims: "\<forall>enc. embedding_model env = Some enc \<longrightarrow>
           (\<forall>(c, as)\<in>set (ANCHOR_EMBEDDINGS enc). \<forall>a\<in>set as. cos_sim env (enc text) a \<le> 1)"
  shows "0 \<le> conf \<and> conf \<le> 1"
proof (cases "text = [] \<or> length (strip text) < 5")
  case True
  then have "hybrid_detect env text = Inr (''Healthy/Low Risk'', ''Insufficient Data'', 0)"
    unfolding hybrid_detect_def by (simp only: if_True)
  with res show ?thesis by simp
next
  case guard: False
  show ?thesis
  proof (cases "keyword_layer KEYWORD_TO_CATEGORY (lower text)")
    case (Some r)
    with guard have "hybrid_detect env text = Inr r" by (simp add: hybrid_detect_def)
    with res Some have "keyword_layer KEYWORD_TO_CATEGORY (lower text) = Some (cat, meth, conf)"
      by simp
    then have "conf = 1" by (rule keyword_layer_conf)
    then show ?thesis by simp
  next
    case None
    then have nokey: "\<forall>(key, val)\<in>set KEYWORD_TO_CATEGORY. \<not> contains (lower text) key"
      by (simp only: keyword_layer_None)
    note past = hybrid_detect_past_keywords [OF guard nokey, of env]
    have fall: "0 \<le> conf \<and> conf \<le> 1"
      if "(case topic_model env of None \<Rightarrow> Inr None | Some tm \<Rightarrow> topic_layer tm text) = Inr None"
    proof -
      from res have "(case (case embedding_model env of
                    None \<Rightarrow> Inr None
                  | Some enc \<Rightarrow> semantic_layer (cos_sim env) enc text) of
              Inl e \<Rightarrow> Inl e
            | Inr (Some r) \<Rightarrow> Inr r
            | Inr None \<Rightarrow> Inr (''Healthy/Low Risk'', ''System Default'', 0))
           = Inr (cat, meth, conf)"
        unfolding past that by simp
      then show ?thesis using sims by (rule semantic_fallthrough_conf)
    qed
    show ?thesis
    proof (cases "topic_model env")
      case None
      then show ?thesis by (intro fall) simp
    next
      case (Some tm)
      obtain topic ps where out: "tm text = (topic, ps)" by (cases "tm text")
      show ?thesis
      proof (cases "map_of TOPIC_MAPPING topic")
        case None
        with out have "topic_layer tm text = Inr None"
          by (intro topic_layer_unmapped) simp
        with Some show ?thesis by (intro fall) simp
      next
        case (Some c)
        from hybrid_detect_topic_mapped [OF guard nokey \<open>topic_model env = Some tm\<close> out Some] res
        have "topic_conf ps = Inr conf" by (simp split: sum.splits)
        moreover from probs \<open>topic_model env = Some tm\<close> out
        have "case ps of NoProbs \<Rightarrow> True | Scalar p \<Rightarrow> 0 \<le> p \<and> p \<le> 1
              | Vector qs \<Rightarrow> \<forall>q\<in>set qs. 0 \<le> q \<and> q \<le> 1"
          by simp
        ultimately show ?thesis by (rule topic_conf_bounds)
      qed
    qed
  qed
qed

lemma topic_method_prefix:
  assumes res: "hybrid_detect env text = Inr (cat, meth, conf)"
    and guard: "\<not> (text = [] \<or> length (strip text) < 5)"
    and nokey: "\<forall>(key, val)\<in>set KEYWORD_TO_CATEGORY. \<not> contains (lower text) key"
    and tm: "topic_model env = Some tm"
    and mapped: "map_of TOPIC_MAPPING (fst (tm text)) \<noteq> None"
  shows "starts_with meth ''AI Cluster''"
proof -
  obtain topic ps where out: "tm text = (topic, ps)" by (cases "tm text")
  with mapped obtain c where c: "map_of TOPIC_MAPPING topic = Some c" by auto
  from hybrid_detect_topic_mapped [OF guard nokey tm out c] res
  have "meth = ''AI Cluster '' @ str_int topic" by (simp split: sum.splits)
  then show ?thesis by simp
qed

text \<open>
  C8, as amended. The engine hands on the numbers of the models unchanged: it neither
  clamps nor checks them. Provided that every probability the topic model gives for the
  text lies in [0,1] and that no anchor embedding has a similarity above 1 to the text,
  the confidence of every result lies in [0,1]. When the keyword layer abstains and the
  topic layer maps the topic, the method starts with \<open>AI Cluster\<close>, whatever the numbers.
\<close>

theorem confidence_in_unit_interval:
  assumes "hybrid_detect env text = Inr (cat, meth, conf)"
  shows "((\<forall>tm. topic_model env = Some tm \<longrightarrow>
             (case snd (tm text) of NoProbs \<Rightarrow> True | Scalar p \<Rightarrow> 0 \<le> p \<and> p \<le> 1
              | Vector qs \<Rightarrow> \<forall>q\<in>set qs. 0 \<le> q \<and> q \<le> 1))
          \<and> (\<forall>enc. embedding_model env = Some enc \<longrightarrow>
                (\<forall>(c, as)\<in>set (ANCHOR_EMBEDDINGS enc). \<forall>a\<in>set as.
                   cos_sim env (enc text) a \<le> 1))
          \<longrightarrow> 0 \<le> conf \<and> conf \<le> 1)
       \<and> (\<not> (text = [] \<or> length (strip text) < 5)
          \<and> (\<forall>(key, val)\<in>set KEYWORD_TO_CATEGORY. \<not> contains (lower text) key)
          \<and> (\<exists>tm. topic_model env = Some tm \<and> map_of TOPIC_MAPPING (fst (tm text)) \<noteq> None)
          \<longrightarrow> starts_with meth ''AI Cluster'')"
proof (intro conjI impI)
  assume r: "(\<forall>tm. topic_model env = Some tm \<longrightarrow>
             (case snd (tm text) of NoProbs \<Rightarrow> True | Scalar p \<Rightarrow> 0 \<le> p \<and> p \<le> 1
              | Vector qs \<Rightarrow> \<forall>q\<in>set qs. 0 \<le> q \<and> q \<le> 1))
          \<and> (\<forall>enc. embedding_model env = Some enc \<longrightarrow>
                (\<forall>(c, as)\<in>set (ANCHOR_EMBEDDINGS enc). \<forall>a\<in>set as.
                   cos_sim env (enc text) a \<le> 1))"
  from r have p: "\<forall>tm. topic_model env = Some tm \<longrightarrow>
             (case snd (tm text) of NoProbs \<Rightarrow> True | Scalar p \<Rightarrow> 0 \<le> p \<and> p \<le> 1
              | Vector qs \<Rightarrow> \<forall>q\<in>set qs. 0 \<le> q \<and> q \<le> 1)"
    by (rule conjunct1)
  from r have s: "\<forall>enc. embedding_model env = Some enc \<longrightarrow>
                (\<forall>(c, as)\<in>set (ANCHOR_EMBEDDINGS enc). \<forall>a\<in>set as.
                   cos_sim env (enc text) a \<le> 1)"
    by (rule conjunct2)
  have b: "0 \<le> conf \<and> conf \<le> 1" using assms p s by (rule confidence_bounds)
  from b show "0 \<le> conf" by (rule conjunct1)
  from b show "conf \<le> 1" by (rule conjunct2)
next
  assume a: "\<not> (text = [] \<or> length (strip text) < 5)
          \<and> (\<forall>(key, val)\<in>set KEYWORD_TO_CATEGORY. \<not> contains (lower text) key)
          \<and> (\<exists>tm. topic_model env = Some tm \<and> map_of TOPIC_MAPPING (fst (tm text)) \<noteq> None)"
  from a have g: "\<not> (text = [] \<or> length (strip text) < 5)"
    by (rule conjunct1)
  from a have k: "\<forall>(key, val)\<in>set KEYWORD_TO_CATEGORY. \<not> contains (lower text) key"
    by (rule conjunct1 [OF conjunct2])
  from a have t: "\<exists>tm. topic_model env = Some tm \<and> map_of TOPIC_MAPPING (fst (tm text)) \<noteq> None"
    by (rule conjunct2 [OF conjunct2])
  from t obtain tm where "topic_model env = Some tm"
    "map_of TOPIC_MAPPING (fst (tm text)) \<noteq> None" by (elim exE conjE)
  with assms g k show "starts_with meth ''AI Cluster''" by (rule topic_method_prefix)
qed

theorem confidence_in_unit_interval_witness:
  "hybrid_detect (topic_stub (Vector [0.2, 0.7, 0.1])) ''normal day''
     = Inr (''Control & Manipulation'', ''AI Cluster 2'', 0.7)
   \<and> (0::real) \<le> 0.7 \<and> (0.7::real) \<le> 1 \<and> starts_with ''AI Cluster 2'' ''AI Cluster''
   \<and> hybrid_detect (topic_stub (Scalar 1.5)) ''normal day''
     = Inr (''Control & Manipulation'', ''AI Cluster 2'', 1.5)
   \<and> starts_with ''AI Cluster 2'' ''AI Cluster''"
proof -
  let ?env = "topic_stub (Vector [0.2, 0.7, 0.1])"
  let ?bad = "topic_stub (Scalar 1.5)"
  have r: "hybrid_detect ?env ''normal day''
     = Inr (''Control & Manipulation'', ''AI Cluster 2'', 0.7)"
    by code_simp
  have r': "hybrid_detect ?bad ''normal day''
     = Inr (''Control & Manipulation'', ''AI Cluster 2'', 1.5)"
    by code_simp
  have p: "\<forall>tm. topic_model ?env = Some tm \<longrightarrow>
           (case snd (tm ''normal day'') of NoProbs \<Rightarrow> True | Scalar p \<Rightarrow> 0 \<le> p \<and> p \<le> 1
            | Vector qs \<Rightarrow> \<forall>q\<in>set qs. 0 \<le> q \<and> q \<le> 1)"
    by (simp add: topic_stub_def)
  have s: "\<forall>enc. embedding_model ?env = Some enc \<longrightarrow>
           (\<forall>(c, as)\<in>set (ANCHOR_EMBEDDINGS enc). \<forall>a\<in>set as.
              cos_sim ?env (enc ''normal day'') a \<le> 1)"
    by (simp add: topic_stub_def)
  have g: "\<not> (''normal day'' = [] \<or> length (strip ''normal day'') < 5)"
    by code_simp
  have k: "\<forall>(key, val)\<in>set KEYWORD_TO_CATEGORY. \<not> contains (lower ''normal day'') key"
    by code_simp
  have t: "\<exists>tm. topic_model (topic_stub ps) = Some tm
             \<and> map_of TOPIC_MAPPING (fst (tm ''normal day'')) \<noteq> None" for ps
    by (simp add: topic_stub_def TOPIC_MAPPING_def)
  from confidence_in_unit_interval [OF r] p s g k t [of "Vector [0.2, 0.7, 0.1]"]
  have a: "(0::real) \<le> 0.7 \<and> (0.7::real) \<le> 1 \<and> starts_with ''AI Cluster 2'' ''AI Cluster''"
    by (simp only: simp_thms)
  from confidence_in_unit_interval [OF r'] g k t [of "Scalar 1.5"]
  have b: "starts_with ''AI Cluster 2'' ''AI Cluster''"
    by (simp only: simp_thms)
  from a have a1: "(0::real) \<le> 0.7" by (rule conjunct1)
  from a have a2: "(0.7::real) \<le> 1" by (rule conjunct1 [OF conjunct2])
  from r a1 a2 b r' b show ?thesis by (intro conjI)
qed

text \<open>
  C8 as stated holds for every output of the models. A topic model that reports 1.5, or
  a float32 cosine similarity of \<open>1 + 2\<^sup>-\<^sup>2\<^sup>3\<close>, is returned as the confidence as it is.
\<close>

theorem confidence_out_of_range_counterexample:
  "hybrid_detect (topic_stub (Scalar 1.5)) ''normal day''
     = Inr (''Control & Manipulation'', ''AI Cluster 2'', 1.5)
   \<and> \<not> (1.5::real) \<le> 1
   \<and> hybrid_detect (outlier_stub (1 + 1 / 2 ^ 23)) ''normal day''
     = Inr (''Physical Abuse'', ''AI Semantic Similarity'', 1 + 1 / 2 ^ 23)
   \<and> \<not> (1 + 1 / 2 ^ 23 :: real) \<le> 1"
proof -
  have a: "hybrid_detect (topic_stub (Scalar 1.5)) ''normal day''
     = Inr (''Control & Manipulation'', ''AI Cluster 2'', 1.5)"
    by code_simp
  have b: "\<not> (1.5::real) \<le> 1" by simp
  have c: "hybrid_detect (outlier_stub (1 + 1 / 2 ^ 23)) ''normal day''
     = Inr (''Physical Abuse'', ''AI Semantic Similarity'', 1 + 1 / 2 ^ 23)"
    by code_simp
  have d: "\<not> (1 + 1 / 2 ^ 23 :: real) \<le> 1" by simp
  from a b c d show ?thesis by (intro conjI)
qed

subsection \<open>The loop over the sections\<close>

lemma section_score_Nil: "section_score [] = 0"
  by (simp add: section_score_def)

lemma sections_loop_skip_empty:
  "sections_loop env ga st = sections_loop env (filter (\<lambda>(n, items). items \<noteq> []) ga) st"
  by (induction env ga st rule: sections_loop.induct) (simp_all split: sum.splits prod.splits)

lemma sections_loop_totals:
  "sections_loop env ga (bd, sents, tot) = Inr (bd', sents', tot') \<Longrightarrow>
   sents' = sents @ map (section_text \<circ> snd) (filter (\<lambda>(n, items). items \<noteq> []) ga)
   \<and> tot' = tot + sum_list (map (section_score \<circ> snd) ga)"
proof (induction ga arbitrary: bd sents tot)
  case Nil
  then show ?case by simp
next
  case (Cons p ga)
  obtain n items where p: "p = (n, items)" by (cases p)
  show ?case
  proof (cases "items = []")
    case True
    with Cons.prems p have "sections_loop env ga (bd, sents, tot) = Inr (bd', sents', tot')"
      by simp
    from Cons.IH [OF this] True p show ?thesis by (simp add: section_score_Nil)
  next
    case False
    with Cons.prems p obtain cat meth conf where
      h: "hybrid_detect env (section_text items) = Inr (cat, meth, conf)"
      by (cases "hybrid_detect env (section_text items)") auto
    obtain rsk col where rc: "section_risk cat (section_score items) = (rsk, col)"
      by (cases "section_risk cat (section_score items)")
    from Cons.prems p False h rc
    have "sections_loop env ga
            (AList.update n \<lparr>category = cat, risk = rsk, color = col,
                             confidence = render env conf @ ''%''\<rparr> bd,
             sents @ [section_text items], tot + section_score items)
          = Inr (bd', sents', tot')"
      by simp
    from Cons.IH [OF this] False p show ?thesis by simp
  qed
qed

lemma sections_loop_untouched:
  "sections_loop env ga (bd, sents, tot) = Inr (bd', sents', tot') \<Longrightarrow>
   name \<notin> fst ` set (filter (\<lambda>(n, items). items \<noteq> []) ga) \<Longrightarrow>
   map_of bd' name = map_of bd name"
proof (induction ga arbitrary: bd sents tot)
  case Nil
  then show ?case by simp
next
  case (Cons p ga)
  obtain n items where p: "p = (n, items)" by (cases p)
  show ?case
  proof (cases "items = []")
    case True
    with Cons.prems p have "sections_loop env ga (bd, sents, tot) = Inr (bd', sents', tot')"
      and "name \<notin> fst ` set (filter (\<lambda>(n, items). items \<noteq> []) ga)"
      by simp_all
    then show ?thesis by (rule Cons.IH)
  next
    case False
    with Cons.prems p obtain cat meth conf where
      h: "hybrid_detect env (section_text items) = Inr (cat, meth, conf)"
      by (cases "hybrid_detect env (section_text items)") auto
    obtain rsk col where rc: "section_risk cat (section_score items) = (rsk, col)"
      by (cases "section_risk cat (section_score items)")
    from Cons.prems p False h rc
    have run: "sections_loop env ga
            (AList.update n \<lparr>category = cat, risk = rsk, color = col,
                             confidence = render env conf @ ''%''\<rparr> bd,
             sents @ [section_text items], tot + section_score items)
          = Inr (bd', sents', tot')"
      by simp
    from Cons.prems(2) p False have ne: "name \<noteq> n"
      and rest: "name \<notin> fst ` set (filter (\<lambda>(n, items). items \<noteq> []) ga)"
      by auto
    from Cons.IH [OF run rest] ne show ?thesis by (simp add: update_conv')
  qed
qed

lemma sections_loop_entry:
  "sections_loop env ga (bd, sents, tot) = Inr (bd', sents', tot') \<Longrightarrow>
   distinct (map fst ga) \<Longrightarrow> (name, items) \<in> set ga \<Longrightarrow> items \<noteq> [] \<Longrightarrow>
   \<exists>cat meth conf. hybrid_detect env (section_text items) = Inr (cat, meth, conf)
     \<and> map_of bd' name
         = Some \<lparr>category = cat, risk = fst (section_risk cat (section_score items)),
                 color = snd (section_risk cat (section_score items)),
                 confidence = render env conf @ ''%''\<rparr>"
proof (induction ga arbitrary: bd sents tot)
  case Nil
  then show ?case by simp
next
  case (Cons p ga)
  obtain n its where p: "p = (n, its)" by (cases p)
  show ?case
  proof (cases "its = []")
    case True
    with Cons.prems p have "sections_loop env ga (bd, sents, tot) = Inr (bd', sents', tot')"
      and "distinct (map fst ga)" and "(name, items) \<in> set ga"
      by auto
    then show ?thesis using Cons.prems(4) by (rule Cons.IH)
  next
    case False
    with Cons.prems p obtain cat meth conf where
      h: "hybrid_detect env (section_text its) = Inr (cat, meth, conf)"
      by (cases "hybrid_detect env (section_text its)") auto
    obtain rsk col where rc: "section_risk cat (section_score its) = (rsk, col)"
      by (cases "section_risk cat (section_score its)")
    let ?bd = "AList.update n \<lparr>category = cat, risk = rsk, color = col,
                             confidence = render env conf @ ''%''\<rparr> bd"
    from Cons.prems(1) p False h rc
    have run: "sections_loop env ga (?bd, sents @ [section_text its], tot + section_score its)
          = Inr (bd', sents', tot')"
      by simp
    from Cons.prems(2) p have d: "distinct (map fst ga)" and nn: "n \<notin> fst ` set ga"
      by auto
    show ?thesis
    proof (cases "(name, items) = (n, its)")
      case True
      with nn have "name \<notin> fst ` set (filter (\<lambda>(n, items). items \<noteq> []) ga)"
        by auto
      from sections_loop_untouched [OF run this] True
      have "map_of bd' name = Some \<lparr>category = cat, risk = rsk, color = col,
                             confidence = render env conf @ ''%''\<rparr>"
        by (simp add: update_conv')
      with h rc True show ?thesis by simp
    next
      case False
      with Cons.prems(3) p have "(name, items) \<in> set ga" by auto
      with run d show ?thesis using Cons.prems(4) by (rule Cons.IH)
    qed
  qed
qed

subsection \<open>The aggregation of the sections\<close>

lemma analyze_Inr:
  assumes "analyze env ga = Inr resp"
  shows "\<exists>bd sents tot gen_cat gen_method gen_conf.
           sections_loop env ga ([], [], 0) = Inr (bd, sents, tot)
         \<and> hybrid_detect env (join '' '' sents) = Inr (gen_cat, gen_method, gen_conf)
         \<and> resp = \<lparr>general =
                      \<lparr>category = gen_cat, risk = fst (general_risk gen_cat tot),
                       color = snd (general_risk gen_cat tot),
                       confidence = render env gen_conf,
                       advice = advice_for gen_cat, method_str = gen_method\<rparr>,
                    breakdown = bd\<rparr>"
proof (cases "sections_loop env ga ([], [], 0)")
  case (Inl e)
  with assms show ?thesis by (simp add: analyze_def)
next
  case (Inr st)
  obtain bd sents tot where st: "st = (bd, sents, tot)" by (cases st)
  show ?thesis
  proof (cases "hybrid_detect env (join '' '' sents)")
    case (Inl e)
    with assms Inr st show ?thesis by (simp add: analyze_def)
  next
    case h: (Inr r)
    obtain gen_cat gen_method gen_conf where r: "r = (gen_cat, gen_method, gen_conf)"
      by (cases r)
    from assms Inr st h r
    have "resp = \<lparr>general =
                      \<lparr>category = gen_cat, risk = fst (general_risk gen_cat tot),
                       color = snd (general_risk gen_cat tot),
                       confidence = render env gen_conf,
                       advice = advice_for gen_cat, method_str = gen_method\<rparr>,
                    breakdown = bd\<rparr>"
      by (simp add: analyze_def split: prod.splits)
    with Inr st h r show ?thesis by simp
  qed
qed

text \<open>
  C1. For every section of the request with items, the entry of the breakdown has the
  category classified for the section's text and the risk decided in this order: Severe
  and red when the category is \<open>Physical Abuse\<close>, whatever the weights; else High and orange
  when the weights sum to 6 or more; else Moderate and yellow when they sum to 2 or more;
  else Low and green. So the risk is Severe exactly when the category is
  \<open>Physical Abuse\<close>. The names of a request are the keys of a dict, hence distinct.
\<close>

theorem section_risk_policy:
  assumes "analyze env ga = Inr resp"
    and "distinct (map fst ga)"
    and "(name, items) \<in> set ga"
    and "items \<noteq> []"
  shows "\<exists>cat meth conf outcome.
           hybrid_detect env (section_text items) = Inr (cat, meth, conf)
         \<and> map_of (breakdown resp) name = Some outcome
         \<and> category outcome = cat
         \<and> (risk outcome = ''Severe'' \<longleftrightarrow> cat = ''Physical Abuse'')
         \<and> (color outcome = ''red'' \<longleftrightarrow> cat = ''Physical Abuse'')
         \<and> (risk outcome, color outcome)
             = (if cat = ''Physical Abuse'' then (''Severe'', ''red'')
                else if sum_list (map item_weight items) \<ge> 6 then (''High'', ''orange'')
                else if sum_list (map item_weight items) \<ge> 2 then (''Moderate'', ''yellow'')
                else (''Low'', ''green''))"
proof -
  from analyze_Inr [OF assms(1)] obtain bd sents tot where
    l: "sections_loop env ga ([], [], 0) = Inr (bd, sents, tot)" and b: "breakdown resp = bd"
    by auto
  from sections_loop_entry [OF l assms(2,3,4)] obtain cat meth conf where
    h: "hybrid_detect env (section_text items) = Inr (cat, meth, conf)"
    and m: "map_of bd name
         = Some \<lparr>category = cat, risk = fst (section_risk cat (section_score items)),
                 color = snd (section_risk cat (section_score items)),
                 confidence = render env conf @ ''%''\<rparr>"
    by (elim exE conjE)
  let ?o = "\<lparr>category = cat, risk = fst (section_risk cat (section_score items)),
                 color = snd (section_risk cat (section_score items)),
                 confidence = render env conf @ ''%''\<rparr>"
  show ?thesis
  proof (intro exI conjI)
    show "hybrid_detect env (section_text items) = Inr (cat, meth, conf)" by (rule h)
    show "map_of (breakdown resp) name = Some ?o" using m b by simp
    show "category ?o = cat" by simp
    show "risk ?o = ''Severe'' \<longleftrightarrow> cat = ''Physical Abuse''"
      by (simp add: section_risk_def)
    show "color ?o = ''red'' \<longleftrightarrow> cat = ''Physical Abuse''"
      by (simp add: section_risk_def)
    show "(risk ?o, color ?o)
             = (if cat = ''Physical Abuse'' then (''Severe'', ''red'')
                else if sum_list (map item_weight items) \<ge> 6 then (''High'', ''orange'')
                else if sum_list (map item_weight items) \<ge> 2 then (''Moderate'', ''yellow'')
                else (''Low'', ''green''))"
      by (simp add: section_risk_def section_score_def)
  qed
qed

theorem section_risk_policy_witness:
  "\<exists>resp outcome.
     analyze no_models [(''Section A'', [\<lparr>item_text = ''he hit me'', item_weight = 7\<rparr>])]
       = Inr resp
   \<and> map_of (breakdown resp) ''Section A'' = Some outcome
   \<and> risk outcome = ''Severe'' \<and> color outcome = ''red''"
proof -
  let ?items = "[\<lparr>item_text = ''he hit me'', item_weight = 7\<rparr>]"
  let ?ga = "[(''Section A'', ?items)]"
  let ?R = "\<lparr>general =
              \<lparr>category = ''Physical Abuse'', risk = ''Severe'', color = ''red'',
               confidence = ''100.0'',
               advice = ''Go to a safe place immediately. Call 911.'',
               method_str = ''Manual Keyword Match''\<rparr>,
            breakdown =
              [(''Section A'',
                \<lparr>category = ''Physical Abuse'', risk = ''Severe'', color = ''red'',
                 confidence = ''100.0%''\<rparr>)]\<rparr>"
  have A: "analyze no_models ?ga = Inr ?R" by code_simp
  have d: "distinct (map fst ?ga)" by simp
  have m: "(''Section A'', ?items) \<in> set ?ga" by simp
  have n: "?items \<noteq> []" by simp
  from section_risk_policy [OF A d m n] obtain cat meth conf outcome where
    h: "hybrid_detect no_models (section_text ?items) = Inr (cat, meth, conf)"
    and o: "map_of (breakdown ?R) ''Section A'' = Some outcome"
    and s: "risk outcome = ''Severe'' \<longleftrightarrow> cat = ''Physical Abuse''"
    and c: "color outcome = ''red'' \<longleftrightarrow> cat = ''Physical Abuse''"
    by (elim exE conjE)
  have "hybrid_detect no_models (section_text ?items)
          = Inr (''Physical Abuse'', ''Manual Keyword Match'', 1)"
    by code_simp
  with h have "cat = ''Physical Abuse''" by simp
  with s c have sv: "risk outcome = ''Severe''" and rd: "color outcome = ''red''" by simp_all
  show ?thesis
  proof (intro exI conjI)
    show "analyze no_models ?ga = Inr ?R" by (rule A)
    show "map_of (breakdown ?R) ''Section A'' = Some outcome" by (rule o)
    show "risk outcome = ''Severe''" by (rule sv)
    show "color outcome = ''red''" by (rule rd)
  qed
qed

text \<open>
  C2. The total is the sum of the weight sums of all sections. The text of a section
  is its item texts with one space between them, and the full text is the texts of the
  sections that have items, in the order of the request, with one space between them.
  The overall category is the result of the engine on the full text, not a combination
  of the categories of the sections: two sections that are each \<open>Healthy/Low Risk\<close> can
  give \<open>Physical Abuse\<close> overall. The overall risk is Severe when that category is
  \<open>Physical Abuse\<close>, else High from a total of 10, else Moderate from a total of 3, else
  Low.
\<close>

theorem overall_outcome:
  assumes "analyze env ga = Inr resp"
    and "total_risk_score = sum_list (map (\<lambda>(n, items). sum_list (map item_weight items)) ga)"
    and "sents = map (\<lambda>(n, items). case map item_text items of
                                       [] \<Rightarrow> []
                                     | t # ts \<Rightarrow> t @ concat (map ((@) '' '') ts))
                     (filter (\<lambda>(n, items). items \<noteq> []) ga)"
    and "full_text = (case sents of [] \<Rightarrow> [] | s # ss \<Rightarrow> s @ concat (map ((@) '' '') ss))"
  shows "\<exists>bd gen_method gen_conf.
           sections_loop env ga ([], [], 0) = Inr (bd, sents, total_risk_score)
         \<and> join '' '' sents = full_text
         \<and> hybrid_detect env full_text = Inr (category (general resp), gen_method, gen_conf)
         \<and> (risk (general resp), color (general resp))
             = (if category (general resp) = ''Physical Abuse'' then (''Severe'', ''red'')
                else if total_risk_score \<ge> 10 then (''High'', ''orange'')
                else if total_risk_score \<ge> 3 then (''Moderate'', ''yellow'')
                else (''Low'', ''green''))"
proof -
  from analyze_Inr [OF assms(1)] obtain bd sents' tot gen_cat gen_method gen_conf where
    l: "sections_loop env ga ([], [], 0) = Inr (bd, sents', tot)"
    and h: "hybrid_detect env (join '' '' sents') = Inr (gen_cat, gen_method, gen_conf)"
    and r: "resp = \<lparr>general =
                      \<lparr>category = gen_cat, risk = fst (general_risk gen_cat tot),
                       color = snd (general_risk gen_cat tot),
                       confidence = render env gen_conf,
                       advice = advice_for gen_cat, method_str = gen_method\<rparr>,
                    breakdown = bd\<rparr>"
    by (elim exE conjE)
  from sections_loop_totals [OF l]
  have t: "tot = sum_list (map (section_score \<circ> snd) ga)"
    and "sents' = map (section_text \<circ> snd) (filter (\<lambda>(n, items). items \<noteq> []) ga)"
    by simp_all
  moreover have "map (section_text \<circ> snd) xs
      = map (\<lambda>(n, items). case map item_text items of
                               [] \<Rightarrow> []
                             | t # ts \<Rightarrow> t @ concat (map ((@) '' '') ts)) xs"
    for xs :: "(string \<times> item list) list"
    by (rule map_cong) (auto simp: section_text_def join_concat)
  ultimately have s: "sents' = sents" using assms(3) by simp
  have "map (section_score \<circ> snd) ga = map (\<lambda>(n, items). sum_list (map item_weight items)) ga"
    by (rule map_cong) (auto simp: section_score_def)
  with t assms(2) have tt: "tot = total_risk_score" by simp
  have j: "join '' '' sents = full_text"
    unfolding assms(4) by (rule join_concat)
  show ?thesis
  proof (intro exI conjI)
    show "sections_loop env ga ([], [], 0) = Inr (bd, sents, total_risk_score)"
      using l tt s by simp
    show "join '' '' sents = full_text" by (rule j)
    show "hybrid_detect env full_text = Inr (category (general resp), gen_method, gen_conf)"
      using h s j r by simp
    show "(risk (general resp), color (general resp))
             = (if category (general resp) = ''Physical Abuse'' then (''Severe'', ''red'')
                else if total_risk_score \<ge> 10 then (''High'', ''orange'')
                else if total_risk_score \<ge> 3 then (''Moderate'', ''yellow'')
                else (''Low'', ''green''))"
      unfolding r tt [symmetric] by (simp add: general_risk_def)
  qed
qed

theorem overall_outcome_witness:
  "\<exists>resp.
     analyze no_models
       [(''S1'', [\<lparr>item_text = ''hit'', item_weight = 1\<rparr>]),
        (''S2'', [\<lparr>item_text = ''ok'', item_weight = 1\<rparr>,
                  \<lparr>item_text = ''no'', item_weight = 2\<rparr>])]
       = Inr resp
   \<and> map (\<lambda>(n, outcome). (n, category outcome)) (breakdown resp)
       = [(''S1'', ''Healthy/Low Risk''), (''S2'', ''Healthy/Low Risk'')]
   \<and> hybrid_detect no_models ''hit ok no''
       = Inr (category (general resp), ''Manual Keyword Match'', 1)
   \<and> category (general resp) = ''Physical Abuse''
   \<and> (risk (general resp), color (general resp)) = (''Severe'', ''red'')"
proof -
  let ?ga = "[(''S1'', [\<lparr>item_text = ''hit'', item_weight = 1\<rparr>]),
        (''S2'', [\<lparr>item_text = ''ok'', item_weight = 1\<rparr>,
                  \<lparr>item_text = ''no'', item_weight = 2\<rparr>])]"
  let ?R = "\<lparr>general =
              \<lparr>category = ''Physical Abuse'', risk = ''Severe'', color = ''red'',
               confidence = ''100.0'',
               advice = ''Go to a safe place immediately. Call 911.'',
               method_str = ''Manual Keyword Match''\<rparr>,
            breakdown =
              [(''S1'',
                \<lparr>category = ''Healthy/Low Risk'', risk = ''Low'', color = ''green'',
                 confidence = ''0.0%''\<rparr>),
               (''S2'',
                \<lparr>category = ''Healthy/Low Risk'', risk = ''Moderate'', color = ''yellow'',
                 confidence = ''0.0%''\<rparr>)]\<rparr>"
  have A: "analyze no_models ?ga = Inr ?R" by code_simp
  have t: "sum_list (map (\<lambda>(n, items). sum_list (map item_weight items)) ?ga) = 4"
    by simp
  have s: "map (\<lambda>(n, items). case map item_text items of
                                  [] \<Rightarrow> []
                                | t # ts \<Rightarrow> t @ concat (map ((@) '' '') ts))
             (filter (\<lambda>(n, items). items \<noteq> []) ?ga)
             = [''hit'', ''ok no'']"
    by simp
  have f: "(case [''hit'', ''ok no''] of [] \<Rightarrow> [] | s # ss \<Rightarrow> s @ concat (map ((@) '' '') ss))
             = ''hit ok no''"
    by simp
  from overall_outcome [OF A t [symmetric] s [symmetric] f [symmetric]]
  obtain gen_method gen_conf where
    h: "hybrid_detect no_models ''hit ok no''
          = Inr (category (general ?R), gen_method, gen_conf)"
    and r: "(risk (general ?R), color (general ?R))
             = (if category (general ?R) = ''Physical Abuse'' then (''Severe'', ''red'')
                else if (4::int) \<ge> 10 then (''High'', ''orange'')
                else if (4::int) \<ge> 3 then (''Moderate'', ''yellow'')
                else (''Low'', ''green''))"
    by (elim exE conjE)
  have e: "hybrid_detect no_models ''hit ok no''
          = Inr (''Physical Abuse'', ''Manual Keyword Match'', 1)"
    by code_simp
  with h have c: "category (general ?R) = ''Physical Abuse''" by simp
  with r have k: "(risk (general ?R), color (general ?R)) = (''Severe'', ''red'')"
    by simp
  from e c have h': "hybrid_detect no_models ''hit ok no''
       = Inr (category (general ?R), ''Manual Keyword Match'', 1)"
    by simp
  have b: "map (\<lambda>(n, outcome). (n, category outcome)) (breakdown ?R)
       = [(''S1'', ''Healthy/Low Risk''), (''S2'', ''Healthy/Low Risk'')]"
    by simp
  show ?thesis
  proof (intro exI conjI)
    show "analyze no_models ?ga = Inr ?R" by (rule A)
    show "map (\<lambda>(n, outcome). (n, category outcome)) (breakdown ?R)
       = [(''S1'', ''Healthy/Low Risk''), (''S2'', ''Healthy/Low Risk'')]" by (rule b)
    show "hybrid_detect no_models ''hit ok no''
       = Inr (category (general ?R), ''Manual Keyword Match'', 1)" by (rule h')
    show "category (general ?R) = ''Physical Abuse''" by (rule c)
    show "(risk (general ?R), color (general ?R)) = (''Severe'', ''red'')" by (rule k)
  qed
qed

text \<open>
  C10. A section without items changes nothing: the loop ends in the same breakdown,
  sentences and total as on the request without it, the response is the same, and its
  name is no key of the breakdown.
\<close>

theorem empty_section_skipped:
  "sections_loop env (pre @ (name, []) # post) st = sections_loop env (pre @ post) st
   \<and> analyze env (pre @ (name, []) # post) = analyze env (pre @ post)
   \<and> (\<forall>resp. analyze env (pre @ (name, []) # post) = Inr resp
               \<and> name \<notin> fst ` set (pre @ post)
         \<longrightarrow> map_of (breakdown resp) name = None)"
proof -
  have f: "filter (\<lambda>(n, items). items \<noteq> []) (pre @ (name, []) # post)
         = filter (\<lambda>(n, items). items \<noteq> []) (pre @ post)"
    by simp
  have a: "sections_loop env (pre @ (name, []) # post) st = sections_loop env (pre @ post) st" for st
    using sections_loop_skip_empty [of env "pre @ (name, []) # post" st]
          sections_loop_skip_empty [of env "pre @ post" st] f
    by simp
  have b: "analyze env (pre @ (name, []) # post) = analyze env (pre @ post)"
    by (simp add: analyze_def a)
  have c: "map_of (breakdown resp) name = None"
    if "analyze env (pre @ (name, []) # post) = Inr resp" and "name \<notin> fst ` set (pre @ post)"
    for resp
  proof -
    from analyze_Inr [OF that(1)] obtain bd sents tot where
      l: "sections_loop env (pre @ (name, []) # post) ([], [], 0) = Inr (bd, sents, tot)"
      and bd: "breakdown resp = bd"
      by auto
    from that(2) have "name \<notin> fst ` set (filter (\<lambda>(n, items). items \<noteq> []) (pre @ (name, []) # post))"
      unfolding f by auto
    from sections_loop_untouched [OF l this] bd show ?thesis by simp
  qed
  from a b c show ?thesis by blast
qed

theorem empty_section_skipped_witness:
  "analyze no_models [(''S1'', [\<lparr>item_text = ''normal day'', item_weight = 1\<rparr>]), (''S2'', [])]
     = analyze no_models [(''S1'', [\<lparr>item_text = ''normal day'', item_weight = 1\<rparr>])]
   \<and> (\<exists>resp.
         analyze no_models
           [(''S1'', [\<lparr>item_text = ''normal day'', item_weight = 1\<rparr>]), (''S2'', [])] = Inr resp
       \<and> map_of (breakdown resp) ''S2'' = None)"
proof -
  let ?pre = "[(''S1'', [\<lparr>item_text = ''normal day'', item_weight = 1\<rparr>])]"
  let ?R = "\<lparr>general =
              \<lparr>category = ''Healthy/Low Risk'', risk = ''Low'', color = ''green'',
               confidence = ''0.0'',
               advice = ''Maintain open communication.'',
               method_str = ''System Default''\<rparr>,
            breakdown =
              [(''S1'',
                \<lparr>category = ''Healthy/Low Risk'', risk = ''Low'', color = ''green'',
                 confidence = ''0.0%''\<rparr>)]\<rparr>"
  note inst = empty_section_skipped [of no_models ?pre "''S2''" "[]" "([], [], 0)"]
  from inst have e: "analyze no_models (?pre @ (''S2'', []) # [])
                       = analyze no_models (?pre @ [])"
    by (elim conjE)
  have A: "analyze no_models (?pre @ (''S2'', []) # []) = Inr ?R" by code_simp
  have nin: "''S2'' \<notin> fst ` set (?pre @ [])" by simp
  from inst have "\<forall>resp. analyze no_models (?pre @ (''S2'', []) # []) = Inr resp
               \<and> ''S2'' \<notin> fst ` set (?pre @ [])
         \<longrightarrow> map_of (breakdown resp) ''S2'' = None"
    by (elim conjE)
  then have "analyze no_models (?pre @ (''S2'', []) # []) = Inr ?R
               \<and> ''S2'' \<notin> fst ` set (?pre @ [])
         \<longrightarrow> map_of (breakdown ?R) ''S2'' = None"
    by (rule spec)
  with A nin have none: "map_of (breakdown ?R) ''S2'' = None" by (simp only: simp_thms)
  have "\<exists>resp. analyze no_models (?pre @ (''S2'', []) # []) = Inr resp
       \<and> map_of (breakdown resp) ''S2'' = None"
  proof (intro exI conjI)
    show "analyze no_models (?pre @ (''S2'', []) # []) = Inr ?R" by (rule A)
    show "map_of (breakdown ?R) ''S2'' = None" by (rule none)
  qed
  with e show ?thesis by simp
qed

subsection \<open>The rendering of the confidence\<close>

lemma general_confidence_render:
  assumes "analyze env ga = Inr resp"
  shows "\<exists>gen_cat gen_method gen_conf.
           hybrid_detect env
             (join '' '' (map (section_text \<circ> snd) (filter (\<lambda>(n, items). items \<noteq> []) ga)))
             = Inr (gen_cat, gen_method, gen_conf)
         \<and> confidence (general resp) = render env gen_conf"
proof -
  from analyze_Inr [OF assms] obtain bd sents tot gen_cat gen_method gen_conf where
    l: "sections_loop env ga ([], [], 0) = Inr (bd, sents, tot)"
    and h: "hybrid_detect env (join '' '' sents) = Inr (gen_cat, gen_method, gen_conf)"
    and r: "resp = \<lparr>general =
                      \<lparr>category = gen_cat, risk = fst (general_risk gen_cat tot),
                       color = snd (general_risk gen_cat tot),
                       confidence = render env gen_conf,
                       advice = advice_for gen_cat, method_str = gen_method\<rparr>,
                    breakdown = bd\<rparr>"
    by (elim exE conjE)
  from sections_loop_totals [OF l]
  have s: "sents = map (section_text \<circ> snd) (filter (\<lambda>(n, items). items \<noteq> []) ga)"
    by simp
  show ?thesis
  proof (intro exI conjI)
    show "hybrid_detect env
             (join '' '' (map (section_text \<circ> snd) (filter (\<lambda>(n, items). items \<noteq> []) ga)))
             = Inr (gen_cat, gen_method, gen_conf)"
      using h s by simp
    show "confidence (general resp) = render env gen_conf" unfolding r by simp
  qed
qed

text \<open>
  C9. The confidence of a section is the rendered number followed by the percent sign.
  The overall confidence of the response is the rendered number alone: the f-string of
  the \<open>general\<close> entry has no percent sign, while the one of the breakdown and the one
  stored in the database have it. On a request of one section with the text
  \<^verbatim>\<open>he hit me\<close>, the section reports \<^verbatim>\<open>100.0%\<close> and the overall result \<^verbatim>\<open>100.0\<close>.
\<close>

theorem general_confidence_without_percent:
  "analyze no_models [(''Section A'', [\<lparr>item_text = ''he hit me'', item_weight = 5\<rparr>])]
     = Inr \<lparr>general =
              \<lparr>category = ''Physical Abuse'', risk = ''Severe'', color = ''red'',
               confidence = ''100.0'',
               advice = ''Go to a safe place immediately. Call 911.'',
               method_str = ''Manual Keyword Match''\<rparr>,
            breakdown =
              [(''Section A'',
                \<lparr>category = ''Physical Abuse'', risk = ''Severe'', color = ''red'',
                 confidence = ''100.0%''\<rparr>)]\<rparr>"
  by code_simp

subsection \<open>Requests that get a response\<close>

lemma topic_conf_returns:
  assumes "ps \<noteq> Vector []"
  shows "\<exists>c. topic_conf ps = Inr c"
proof (cases ps)
  case NoProbs
  then have "topic_conf ps = Inr 0.5" by simp
  then show ?thesis by (rule exI)
next
  case (Scalar p)
  then have "topic_conf ps = Inr p" by simp
  then show ?thesis by (rule exI)
next
  case (Vector qs)
  with assms have "topic_conf ps = Inr (Max (set qs))" by (simp add: py_max_nonempty)
  then show ?thesis by (rule exI)
qed

lemma semantic_layer_returns: "\<exists>r. semantic_layer cs enc text = Inr r"
proof -
  from semantic_layer_result [of enc cs "text"] obtain b' h' where
    "semantic_layer cs enc text
         = (if h' > 0.35 then Inr (Some (b', ''AI Semantic Similarity'', h')) else Inr None)"
    by (elim exE conjE)
  then show ?thesis by (cases "h' > 0.35") simp_all
qed

lemma hybrid_detect_returns:
  assumes "\<forall>tm. topic_model env = Some tm \<longrightarrow> snd (tm text) \<noteq> Vector []"
  shows "\<exists>r. hybrid_detect env text = Inr r"
proof (cases "text = [] \<or> length (strip text) < 5")
  case True
  then have "hybrid_detect env text = Inr (''Healthy/Low Risk'', ''Insufficient Data'', 0)"
    unfolding hybrid_detect_def by (simp only: if_True)
  then show ?thesis by (rule exI)
next
  case guard: False
  show ?thesis
  proof (cases "keyword_layer KEYWORD_TO_CATEGORY (lower text)")
    case (Some r)
    with guard have "hybrid_detect env text = Inr r" by (simp add: hybrid_detect_def)
    then show ?thesis by (rule exI)
  next
    case None
    then have nokey: "\<forall>(key, val)\<in>set KEYWORD_TO_CATEGORY. \<not> contains (lower text) key"
      by (simp only: keyword_layer_None)
    note past = hybrid_detect_past_keywords [OF guard nokey, of env]
    have sem: "\<exists>r. (case embedding_model env of
                    None \<Rightarrow> Inr None
                  | Some enc \<Rightarrow> semantic_layer (cos_sim env) enc text) = Inr r"
    proof (cases "embedding_model env")
      case None
      then show ?thesis by simp
    next
      case (Some enc)
      with semantic_layer_returns [of "cos_sim env" enc "text"] show ?thesis by simp
    qed
    have fall: ?thesis
      if "(case topic_model env of None \<Rightarrow> Inr None | Some tm \<Rightarrow> topic_layer tm text) = Inr None"
    proof -
      from sem obtain r where
        r: "(case embedding_model env of
                    None \<Rightarrow> Inr None
                  | Some enc \<Rightarrow> semantic_layer (cos_sim env) enc text) = Inr r"
        by (elim exE)
      show ?thesis unfolding past that r by (cases r) (simp_all del: split_paired_Ex)
    qed
    show ?thesis
    proof (cases "topic_model env")
      case None
      then show ?thesis by (intro fall) simp
    next
      case (Some tm)
      obtain topic ps where out: "tm text = (topic, ps)" by (cases "tm text")
      show ?thesis
      proof (cases "map_of TOPIC_MAPPING topic")
        case None
        with out have "topic_layer tm text = Inr None"
          by (intro topic_layer_unmapped) simp
        with Some show ?thesis by (intro fall) simp
      next
        case (Some c)
        from assms \<open>topic_model env = Some tm\<close> out have "ps \<noteq> Vector []" by auto
        then obtain conf where "topic_conf ps = Inr conf"
          using topic_conf_returns by blast
        with hybrid_detect_topic_mapped [OF guard nokey \<open>topic_model env = Some tm\<close> out Some]
        show ?thesis by simp
      qed
    qed
  qed
qed

lemma sections_loop_returns:
  assumes "\<forall>tm t. topic_model env = Some tm \<longrightarrow> snd (tm t) \<noteq> Vector []"
  shows "\<exists>st'. sections_loop env ga st = Inr st'"
proof (induction ga arbitrary: st)
  case Nil
  have "sections_loop env [] st = Inr st" by simp
  then show ?case by (rule exI)
next
  case (Cons p ga)
  obtain n items where p: "p = (n, items)" by (cases p)
  obtain bd sents tot where st: "st = (bd, sents, tot)" by (rule prod_cases3)
  show ?case
  proof (cases "items = []")
    case True
    from Cons.IH [of st] obtain st' where "sections_loop env ga st = Inr st'"
      by (elim exE)
    with p st True have "sections_loop env (p # ga) st = Inr st'" by simp
    then show ?thesis by (rule exI)
  next
    case False
    from assms have "\<forall>tm. topic_model env = Some tm \<longrightarrow> snd (tm (section_text items)) \<noteq> Vector []"
      by simp
    from hybrid_detect_returns [OF this] obtain cat meth conf where
      h: "hybrid_detect env (section_text items) = Inr (cat, meth, conf)"
      by (metis prod_cases3)
    obtain rsk col where rc: "section_risk cat (section_score items) = (rsk, col)"
      by (cases "section_risk cat (section_score items)")
    from Cons.IH [of "(AList.update n \<lparr>category = cat, risk = rsk, color = col,
                             confidence = render env conf @ ''%''\<rparr> bd,
             sents @ [section_text items], tot + section_score items)"]
    obtain st' where
      "sections_loop env ga
         (AList.update n \<lparr>category = cat, risk = rsk, color = col,
                             confidence = render env conf @ ''%''\<rparr> bd,
          sents @ [section_text items], tot + section_score items) = Inr st'"
      by (elim exE)
    with p st False h rc have "sections_loop env (p # ga) st = Inr st'" by simp
    then show ?thesis by (rule exI)
  qed
qed

text \<open>
  The only exception that can escape the engine on a well-formed request is the
  \<^verbatim>\<open>ValueError\<close> of \<^verbatim>\<open>max\<close> on an iterable without elements. With a topic model that never
  reports one (or with none), every request gets a response, so the properties of the
  responses above are about every request.
\<close>

lemma analyze_returns:
  assumes "\<forall>tm t. topic_model env = Some tm \<longrightarrow> snd (tm t) \<noteq> Vector []"
  shows "\<exists>resp. analyze env ga = Inr resp"
proof -
  from sections_loop_returns [OF assms, of ga "([], [], 0)"] obtain bd sents tot where
    l: "sections_loop env ga ([], [], 0) = Inr (bd, sents, tot)"
    by (metis prod_cases3)
  from assms have "\<forall>tm. topic_model env = Some tm \<longrightarrow> snd (tm (join '' '' sents)) \<noteq> Vector []"
    by simp
  from hybrid_detect_returns [OF this] obtain gen_cat gen_method gen_conf where
    h: "hybrid_detect env (join '' '' sents) = Inr (gen_cat, gen_method, gen_conf)"
    by (metis prod_cases3)
  obtain gen_risk gen_color where "general_risk gen_cat tot = (gen_risk, gen_color)"
    by (cases "general_risk gen_cat tot")
  with l h have "analyze env ga =
      Inr \<lparr>general =
              \<lparr>category = gen_cat, risk = gen_risk, color = gen_color,
               confidence = render env gen_conf,
               advice = advice_for gen_cat, method_str = gen_method\<rparr>,
            breakdown = bd\<rparr>"
    by (simp add: analyze_def)
  then show ?thesis by (rule exI)
qed

end
